theory Spec2Isabelle
  imports Main "HOL-Library.AList"
begin

chapter \<open>A shallow embedding of the function_queue task engine\<close>

text \<open>
  The theory has two parts. The first part translates the source into HOL definitions:
  the bounded ring buffer (\<^verbatim>\<open>locking_circular_buffer\<close>, both variants), the wait
  helper \<^verbatim>\<open>wait_impl::wait_for\<close>, the task and its readiness test, the scheduler
  (\<^verbatim>\<open>task_scheduler_impl\<close>), the submission closures of \<^verbatim>\<open>task_scheduler\<close>, the
  free helpers \<^verbatim>\<open>schedule_task\<close> and \<^verbatim>\<open>create_task_group\<close>, and the pipeline of the
  test \<^verbatim>\<open>test_001\<close>. The second part states and proves the properties.

  Conventions. A thread is modelled between two of its suspension points: whatever other
  threads do while this thread is suspended is a function \<open>env\<close> on the shared state, a
  parameter of every operation that can suspend. A call that never returns has the value
  \<open>None\<close>. Signals on a condition variable are returned as a list, in the order they
  are sent.
\<close>

section \<open>The bounded ring buffer\<close>

text \<open>
  \<^verbatim>\<open>members_t\<close> of \<^verbatim>\<open>locking_circular_buffer<T, Sz>\<close>: the slots (a null
  \<^verbatim>\<open>unique_ptr\<close> is \<open>None\<close>), the head and tail indices and the full flag. The two
  condition variables carry no data; they appear as the values of \<open>condition_variable\<close>.
  The legacy variant \<^verbatim>\<open>locking_circular_buffer<T>\<close> has the same members and the
  capacity \<^verbatim>\<open>m_size\<close> as a field instead of the template parameter \<^verbatim>\<open>Sz\<close>.
\<close>

datatype condition_variable = m_not_empty | m_not_full

datatype push_back_result = failed | success

datatype abort = assertion_failed | terminated

record 'a members_t =
  m_values :: "'a option list"
  m_front :: nat
  m_back :: nat
  m_is_full :: bool

record 'a legacy_members_t = "'a members_t" +
  m_size :: nat

definition empty :: "('a, 'z) members_t_scheme \<Rightarrow> bool" where
  "empty d = (\<not> m_is_full d \<and> m_front d = m_back d)"

definition full :: "('a, 'z) members_t_scheme \<Rightarrow> bool" where
  "full d = m_is_full d"

text \<open>
  \<^verbatim>\<open>try_pop_front\<close> of the fixed-capacity variant. \<open>owns_lock\<close> is the outcome of
  the \<^verbatim>\<open>try_to_lock\<close>; \<open>ndebug\<close> says whether \<^verbatim>\<open>assert\<close> is compiled out. The
  result is the returned pointer, the members afterwards and the signals sent.
\<close>

definition try_pop_front ::
  "nat \<Rightarrow> bool \<Rightarrow> bool \<Rightarrow> 'a members_t
    \<Rightarrow> abort + ('a option \<times> 'a members_t \<times> condition_variable list)" where
  "try_pop_front Sz owns_lock ndebug d =
     (if \<not> owns_lock \<or> empty d then Inr (None, d, [])
      else
        let d1 = d\<lparr>m_is_full := False\<rparr> in
        if \<not> ndebug \<and> m_values d1 ! m_front d1 = None then Inl assertion_failed
        else
          let r = m_values d1 ! m_front d1;
              d2 = d1\<lparr>m_values := (m_values d1)[m_front d1 := None]\<rparr>;
              d3 = d2\<lparr>m_front := (m_front d2 + 1) mod Sz\<rparr>
          in Inr (r, d3, []))"

text \<open>\<^verbatim>\<open>try_push_back\<close> of the fixed-capacity variant.\<close>

definition try_push_back ::
  "nat \<Rightarrow> bool \<Rightarrow> bool \<Rightarrow> 'a option \<Rightarrow> 'a members_t
    \<Rightarrow> abort + (push_back_result \<times> 'a members_t \<times> condition_variable list)" where
  "try_push_back Sz owns_lock ndebug v d =
     (if \<not> owns_lock \<or> full d then Inr (failed, d, [])
      else if \<not> ndebug \<and> m_values d ! m_back d \<noteq> None then Inl assertion_failed
      else
        let d1 = d\<lparr>m_values := (m_values d)[m_back d := v]\<rparr>;
            d2 = d1\<lparr>m_back := (m_back d1 + 1) mod Sz\<rparr>;
            d3 = d2\<lparr>m_is_full := (m_front d2 = m_back d2)\<rparr>
        in Inr (success, d3, [m_not_empty]))"

text \<open>
  The indices of a buffer of capacity \<open>Sz\<close> stay below \<open>Sz\<close> and the array has
  \<open>Sz\<close> slots. Outside these states the source indexes out of range or divides by
  zero, which is undefined behaviour; every statement about the buffer is made for
  these states.
\<close>

definition buffer_ok :: "nat \<Rightarrow> ('a, 'z) members_t_scheme \<Rightarrow> bool" where
  "buffer_ok Sz d =
     (0 < Sz \<and> length (m_values d) = Sz \<and> m_front d < Sz \<and> m_back d < Sz)"

section \<open>Condition variable waits\<close>

text \<open>
  \<^verbatim>\<open>std::condition_variable::wait(lock, pred)\<close> is \<^verbatim>\<open>while (!pred()) wait(lock);\<close>.
  Each inner wait releases the mutex, so the shared state seen at the next wakeup is
  \<open>env\<close> of the state before. The call never returns when \<open>pred\<close> never holds at a
  wakeup.
\<close>

partial_function (option) cv_wait :: "('s \<Rightarrow> 's) \<Rightarrow> ('s \<Rightarrow> bool) \<Rightarrow> 's \<Rightarrow> 's option" where
  "cv_wait env pred s = (if pred s then Some s else cv_wait env pred (env s))"

text \<open>
  \<^verbatim>\<open>std::condition_variable::wait_for(lock, timeout, pred)\<close> returns \<^verbatim>\<open>true\<close> at once
  when \<open>pred\<close> holds; otherwise it suspends, and when it returns (notified or timed
  out) its value is \<open>pred\<close> of the state it then sees.
\<close>

definition cv_wait_for :: "('s \<Rightarrow> 's) \<Rightarrow> ('s \<Rightarrow> bool) \<Rightarrow> 's \<Rightarrow> bool \<times> 's" where
  "cv_wait_for env pred s =
     (if pred s then (True, s) else (let s' = env s in (pred s', s')))"

text \<open>
  \<^verbatim>\<open>wait_impl::wait_for(wt, lock, timeout, pred, cond)\<close>: the loop, entered with the
  status of the first timed wait, and the function itself.
\<close>

partial_function (option) wait_for_loop ::
  "('s \<Rightarrow> 's) \<Rightarrow> ('s \<Rightarrow> bool) \<Rightarrow> ('s \<Rightarrow> bool) \<Rightarrow> bool \<Rightarrow> 's \<Rightarrow> (bool \<times> 's) option" where
  "wait_for_loop env pred cond status s =
     (if cond s \<and> \<not> status
      then wait_for_loop env pred cond (fst (cv_wait_for env pred s)) (snd (cv_wait_for env pred s))
      else Some (status, s))"

definition wait_for ::
  "('s \<Rightarrow> 's) \<Rightarrow> ('s \<Rightarrow> bool) \<Rightarrow> ('s \<Rightarrow> bool) \<Rightarrow> 's \<Rightarrow> (bool \<times> 's) option" where
  "wait_for env pred cond s =
     (case wait_for_loop env pred cond (fst (cv_wait_for env pred s)) (snd (cv_wait_for env pred s)) of
        None \<Rightarrow> None
      | Some (status, s') \<Rightarrow> Some (status \<and> cond s', s'))"

section \<open>Blocking pop and push with a predicate\<close>

text \<open>
  The shared state is a pair: whatever the caller's predicate reads (the scheduler's
  running flag, say), and the members of the buffer. \<open>pop_front_tail\<close> is the part of
  \<^verbatim>\<open>pop_front(can_continue, timeout)\<close> after the wait.
\<close>

definition pop_front_tail ::
  "nat \<Rightarrow> ('x \<times> 'a members_t \<Rightarrow> bool) \<Rightarrow> 'x \<times> 'a members_t
    \<Rightarrow> 'a option \<times> ('x \<times> 'a members_t) \<times> condition_variable list" where
  "pop_front_tail Sz can_continue s =
     (if \<not> can_continue s then (None, s, [])
      else
        let d = snd s;
            r = m_values d ! m_front d;
            d1 = d\<lparr>m_values := (m_values d)[m_front d := None]\<rparr>;
            d2 = d1\<lparr>m_is_full := False\<rparr>;
            d3 = d2\<lparr>m_front := (m_front d2 + 1) mod Sz\<rparr>
        in (r, (fst s, d3), [m_not_full]))"

definition pop_front ::
  "nat \<Rightarrow> ('x \<times> 'a members_t \<Rightarrow> 'x \<times> 'a members_t) \<Rightarrow> ('x \<times> 'a members_t \<Rightarrow> bool)
    \<Rightarrow> 'x \<times> 'a members_t
    \<Rightarrow> ('a option \<times> ('x \<times> 'a members_t) \<times> condition_variable list) option" where
  "pop_front Sz env can_continue s =
     (if empty (snd s) then
        (case wait_for env (\<lambda>s. \<not> empty (snd s)) can_continue s of
           None \<Rightarrow> None
         | Some (can_pop, s1) \<Rightarrow>
             if \<not> can_pop then Some (None, s1, [])
             else Some (pop_front_tail Sz can_continue s1))
      else Some (pop_front_tail Sz can_continue s))"



section \<open>The legacy variant of the buffer\<close>

text \<open>
  \<^verbatim>\<open>locking_circular_buffer<T>::try_pop_front\<close>: the slot is a \<^verbatim>\<open>std::optional\<close>,
  emptied with \<^verbatim>\<open>std::exchange\<close>.
\<close>

definition legacy_try_pop_front ::
  "bool \<Rightarrow> bool \<Rightarrow> 'a legacy_members_t
    \<Rightarrow> abort + ('a option \<times> 'a legacy_members_t \<times> condition_variable list)" where
  "legacy_try_pop_front owns_lock ndebug d =
     (if \<not> owns_lock \<or> empty d then Inr (None, d, [])
      else
        let d1 = d\<lparr>m_is_full := False\<rparr> in
        if \<not> ndebug \<and> m_values d1 ! m_front d1 = None then Inl assertion_failed
        else
          let r = m_values d1 ! m_front d1;
              d2 = d1\<lparr>m_values := (m_values d1)[m_front d1 := None]\<rparr>;
              d3 = d2\<lparr>m_front := (m_front d2 + 1) mod m_size d2\<rparr>
          in Inr (r, d3, []))"

text \<open>
  \<^verbatim>\<open>locking_circular_buffer<T>::try_push_back\<close>: when the lock was not taken or the
  buffer is full it waits on \<^verbatim>\<open>m_not_full\<close> until the buffer is not full; it has no
  path that returns \<^verbatim>\<open>failed\<close>.
\<close>

definition legacy_try_push_back ::
  "('x \<times> 'a legacy_members_t \<Rightarrow> 'x \<times> 'a legacy_members_t) \<Rightarrow> bool \<Rightarrow> bool \<Rightarrow> 'a
    \<Rightarrow> 'x \<times> 'a legacy_members_t
    \<Rightarrow> (abort + (push_back_result \<times> ('x \<times> 'a legacy_members_t) \<times> condition_variable list)) option" where
  "legacy_try_push_back env owns_lock ndebug v s =
     (case (if \<not> owns_lock \<or> full (snd s)
            then cv_wait env (\<lambda>s. \<not> full (snd s)) s
            else Some s) of
        None \<Rightarrow> None
      | Some s0 \<Rightarrow>
          let d = snd s0 in
          if \<not> ndebug \<and> m_values d ! m_back d \<noteq> None then Some (Inl assertion_failed)
          else
            let d1 = d\<lparr>m_values := (m_values d)[m_back d := Some v]\<rparr>;
                d2 = d1\<lparr>m_back := (m_back d1 + 1) mod m_size d1\<rparr>;
                d3 = d2\<lparr>m_is_full := (m_front d2 = m_back d2)\<rparr>
            in Some (Inr (success, (fst s0, d3), [m_not_empty])))"

section \<open>Latches and tasks\<close>

text \<open>
  Callables are nullary and have no value of their own in the model: a callable supplied
  by a user is named by a value of a type \<open>'f\<close>, and the closures the engine builds
  around a callable are the other constructors.
  \<^item> \<open>empty_lambda\<close> is \<^verbatim>\<open>[]( ) {}\<close>.
  \<^item> \<open>notify_on_exit task sem\<close> is the closure of \<^verbatim>\<open>schedule_task\<close>: it runs
    \<open>task\<close>, and a scope guard notifies the latch \<open>sem\<close> when the closure is left.
  \<^item> \<open>continuation wself task id\<close> is the closure of \<^verbatim>\<open>add_task\<close>: it captures a
    weak handle to the scheduler's shared state, the callable and the queue index.
  A latch is named by its index in the list of all latches. There is one scheduler in
  the model, so a weak handle carries no data; whether it still locks is a matter of
  the world it is locked in.
\<close>

datatype handle_t = weak_handle

datatype 'f callable =
    user 'f
  | empty_lambda
  | notify_on_exit "'f callable" nat
  | continuation handle_t "'f callable" nat

text \<open>
  \<^verbatim>\<open>task_t\<close>: the callable and the companion latch. The source tests the latch with
  \<^verbatim>\<open>if( m_latch )\<close>; a task made without a latch is one whose latch tests false,
  which is \<open>None\<close> here.
\<close>

record 'f task_t =
  m_function :: "'f callable"
  m_latch :: "nat option"

record std_thread =
  get_id :: nat
  joinable :: bool

text \<open>
  What a thread does that the properties below speak about, in the order it does it: it
  invokes a user's callable, notifies a latch, pushes a task into a queue, calls
  \<^verbatim>\<open>join\<close> or \<^verbatim>\<open>detach\<close> on a thread, clears the list of threads, writes the
  running flag.
\<close>

datatype 'f event =
    invoked 'f
  | notified nat
  | sent nat "'f task_t"
  | joined nat
  | detached nat
  | threads_cleared
  | continue_set bool

datatype lifetime = not_constructed | alive | destroyed

datatype outcome = returned | threw | returned_true | returned_false

text \<open>
  The members of \<^verbatim>\<open>task_scheduler_impl\<close> (named \<^verbatim>\<open>member_data_t\<close> in the later
  \<^verbatim>\<open>task_scheduler\<close>); the helper threads and \<^verbatim>\<open>m_current_id\<close> are left out, no
  function modelled here touches them. Each queue is the list of the tasks it holds,
  oldest first. \<^verbatim>\<open>m_task_count\<close> is a 64-bit \<^verbatim>\<open>size_t\<close>.
\<close>

record 'f member_data_t =
  m_threads :: "std_thread list"
  m_thread_map :: "(nat \<times> nat) list"
  m_num_threads :: nat
  m_tasks :: "'f task_t list list"
  m_task_count :: nat
  m_continue :: bool
  m_block_on_destruction :: bool

text \<open>
  The world a thread acts on: the shared state of the scheduler with its lifetime
  (a weak handle locks only while it is \<open>alive\<close>), the counters of all latches, the
  events so far, and the identifier the next thread created will get.
\<close>

record 'f world = "'f member_data_t" +
  lifetime :: lifetime
  latches :: "nat list"
  trace :: "'f event list"
  next_thread_id :: nat

text \<open>
  Modelled from the spec: the latch (\<^verbatim>\<open>daw/parallel/daw_latch.h\<close>) is not among the
  sources. It is constructed with a count; \<^verbatim>\<open>notify\<close> decrements the count and is a
  no-op on a zero latch; \<^verbatim>\<open>try_wait\<close> says whether the count is zero.
\<close>

definition shared_latch :: "nat \<Rightarrow> 'f world \<Rightarrow> nat \<times> 'f world" where
  "shared_latch count w = (length (latches w), w\<lparr>latches := latches w @ [count]\<rparr>)"

definition notify :: "nat \<Rightarrow> 'f world \<Rightarrow> 'f world" where
  "notify sem w =
     w\<lparr>latches := (latches w)[sem := latches w ! sem - 1], trace := trace w @ [notified sem]\<rparr>"

definition try_wait :: "nat \<Rightarrow> 'f world \<Rightarrow> bool" where
  "try_wait sem w = (latches w ! sem = 0)"

text \<open>
  \<^verbatim>\<open>task_scheduler::get_handle\<close> and the two members of its \<^verbatim>\<open>handle_t\<close>. Locking
  gives the scheduler, which is the world itself, while the shared state is alive, and
  nothing otherwise.
\<close>

definition get_handle :: "'f world \<Rightarrow> handle_t" where
  "get_handle w = weak_handle"

definition handle_expired :: "handle_t \<Rightarrow> 'f world \<Rightarrow> bool" where
  "handle_expired h w = (lifetime w \<noteq> alive)"

definition handle_lock :: "handle_t \<Rightarrow> 'f world \<Rightarrow> 'f world option" where
  "handle_lock h w = (if lifetime w = alive then Some w else None)"

text \<open>\<^verbatim>\<open>task_t::is_ready\<close>.\<close>

definition is_ready :: "'f task_t \<Rightarrow> 'f world \<Rightarrow> bool" where
  "is_ready t w = (case m_latch t of Some sem \<Rightarrow> try_wait sem w | None \<Rightarrow> True)"

section \<open>The queues of the scheduler\<close>

text \<open>
  Modelled from the spec: the queue type of \<^verbatim>\<open>task_scheduler_impl\<close>
  (\<^verbatim>\<open>message_queue.h\<close>) is not among the sources. \<^verbatim>\<open>m_tasks[m].send(tsk)\<close> is the
  non-blocking push of a bounded FIFO queue, constructed with capacity 1024: it fails
  when the queue is full. \<^verbatim>\<open>m_tasks[m].receive(tsk)\<close> is the non-blocking pop: it
  fails when the queue is empty.
\<close>

definition queue_capacity :: nat where
  "queue_capacity = 1024"

definition send :: "nat \<Rightarrow> 'f task_t \<Rightarrow> 'f world \<Rightarrow> bool \<times> 'f world" where
  "send m tsk w =
     (if length (m_tasks w ! m) < queue_capacity
      then (True, w\<lparr>m_tasks := (m_tasks w)[m := m_tasks w ! m @ [tsk]],
                    trace := trace w @ [sent m tsk]\<rparr>)
      else (False, w))"

definition receive :: "'f world \<Rightarrow> nat \<Rightarrow> 'f task_t option \<times> 'f world" where
  "receive w m =
     (case m_tasks w ! m of
        [] \<Rightarrow> (None, w)
      | tsk # rest \<Rightarrow> (Some tsk, w\<lparr>m_tasks := (m_tasks w)[m := rest]\<rparr>))"

section \<open>Looking for a task\<close>

text \<open>
  \<^verbatim>\<open>wait_for_task_from_pool\<close> and \<^verbatim>\<open>run_next_task\<close> share the loop over the other
  queues, \<^verbatim>\<open>for( m = (id + 1) % N; m != id; m = (m + 1) % N )\<close>. The functions are stated
  for any state \<open>'s\<close>, any \<open>rcv\<close> in the place of \<^verbatim>\<open>m_tasks[m].receive(tsk)\<close> and
  any \<open>sleep\<close> in the place of \<^verbatim>\<open>sleep_for( 1ns )\<close>, during which other threads run.
  \<open>steal_loop\<close> returns the task it found, or no task once \<open>m\<close> is back at the
  worker's index, the source's \<^verbatim>\<open>id\<close>, written \<open>wid\<close> here.
\<close>

partial_function (option) steal_loop ::
  "('s \<Rightarrow> nat \<Rightarrow> 't option \<times> 's) \<Rightarrow> nat \<Rightarrow> nat \<Rightarrow> nat \<Rightarrow> 's \<Rightarrow> ('t option \<times> 's) option" where
  "steal_loop rcv N wid m s =
     (if m \<noteq> wid then
        (case rcv s m of
           (Some tsk, s1) \<Rightarrow> Some (Some tsk, s1)
         | (None, s1) \<Rightarrow> steal_loop rcv N wid ((m + 1) mod N) s1)
      else Some (None, s))"

text \<open>The last loop of \<^verbatim>\<open>wait_for_task_from_pool\<close>: poll the own queue until it gives a task.\<close>

partial_function (option) poll_own ::
  "('s \<Rightarrow> nat \<Rightarrow> 't option \<times> 's) \<Rightarrow> ('s \<Rightarrow> 's) \<Rightarrow> nat \<Rightarrow> 's \<Rightarrow> ('t \<times> 's) option" where
  "poll_own rcv sleep wid s =
     (case rcv s wid of
        (Some tsk, s1) \<Rightarrow> Some (tsk, s1)
      | (None, s1) \<Rightarrow> poll_own rcv sleep wid (sleep s1))"

definition wait_for_task_from_pool ::
  "('s \<Rightarrow> nat \<Rightarrow> 't option \<times> 's) \<Rightarrow> ('s \<Rightarrow> 's) \<Rightarrow> nat \<Rightarrow> nat \<Rightarrow> 's \<Rightarrow> ('t \<times> 's) option" where
  "wait_for_task_from_pool rcv sleep N wid s =
     (case rcv s wid of
        (Some tsk, s1) \<Rightarrow> Some (tsk, s1)
      | (None, s1) \<Rightarrow>
          (case steal_loop rcv N wid ((wid + 1) mod N) s1 of
             None \<Rightarrow> None
           | Some (Some tsk, s2) \<Rightarrow> Some (tsk, s2)
           | Some (None, s2) \<Rightarrow> poll_own rcv sleep wid s2))"

text \<open>
  \<open>try_each\<close> tries the queues of a list in turn and stops at the first hit;
  \<open>poll_state k\<close> is the state in which the last loop polls for the \<open>k\<close>-th time,
  counted from zero.
\<close>

fun try_each :: "('s \<Rightarrow> nat \<Rightarrow> 't option \<times> 's) \<Rightarrow> nat list \<Rightarrow> 's \<Rightarrow> 't option \<times> 's" where
  "try_each rcv [] s = (None, s)"
| "try_each rcv (m # ms) s =
     (case rcv s m of
        (Some tsk, s1) \<Rightarrow> (Some tsk, s1)
      | (None, s1) \<Rightarrow> try_each rcv ms s1)"

fun poll_state ::
  "('s \<Rightarrow> nat \<Rightarrow> 't option \<times> 's) \<Rightarrow> ('s \<Rightarrow> 's) \<Rightarrow> nat \<Rightarrow> nat \<Rightarrow> 's \<Rightarrow> 's" where
  "poll_state rcv sleep wid 0 s = s"
| "poll_state rcv sleep wid (Suc k) s = poll_state rcv sleep wid k (sleep (snd (rcv s wid)))"

section \<open>The scheduler\<close>

text \<open>
  A scheduler as its constructor makes it, for a positive number of threads, has as many
  queues as threads. With no thread the round-robin index is a division by zero, which
  is undefined behaviour; the statements that use the index are made for schedulers of
  this kind.
\<close>

definition scheduler_ok :: "'f world \<Rightarrow> bool" where
  "scheduler_ok w = (0 < m_num_threads w \<and> length (m_tasks w) = m_num_threads w)"

text \<open>
  \<^verbatim>\<open>task_scheduler_impl::get_task_id\<close>: the round-robin counter is read and
  incremented (it wraps as a 64-bit \<^verbatim>\<open>size_t\<close> does).
\<close>

definition get_task_id :: "'f world \<Rightarrow> nat \<times> 'f world" where
  "get_task_id w =
     (let tc = m_task_count w
      in (tc mod m_num_threads w, w\<lparr>m_task_count := (tc + 1) mod 2 ^ 64\<rparr>))"

text \<open>
  \<^verbatim>\<open>task_scheduler_impl::send_task\<close>: it retries \<^verbatim>\<open>send\<close> until it succeeds and
  sleeps in between; \<open>env\<close> is what the other threads do meanwhile.
\<close>

partial_function (option) send_task_impl ::
  "('f world \<Rightarrow> 'f world) \<Rightarrow> 'f task_t \<Rightarrow> nat \<Rightarrow> 'f world \<Rightarrow> 'f world option" where
  "send_task_impl env tsk wid w =
     (case send wid tsk w of
        (sent_ok, w1) \<Rightarrow> if sent_ok then Some w1 else send_task_impl env tsk wid (env w1))"

text \<open>
  Modelled from the spec: the header that defines \<^verbatim>\<open>task_scheduler_impl::add_task\<close>
  is not among the sources. As the spec says of submission, and as \<^verbatim>\<open>add_task\<close> of
  the later \<^verbatim>\<open>task_scheduler\<close> does, the callable is wrapped in the continuation
  closure and the wrapped task, with the latch if there is one, is pushed into the
  target queue; without a queue index the target is the next one round-robin.
\<close>

definition add_task_impl_id ::
  "('f world \<Rightarrow> 'f world) \<Rightarrow> 'f callable \<Rightarrow> nat \<Rightarrow> 'f world \<Rightarrow> 'f world option" where
  "add_task_impl_id env task wid w =
     send_task_impl env \<lparr>m_function = continuation (get_handle w) task wid, m_latch = None\<rparr> wid w"

definition add_task_impl_latch ::
  "('f world \<Rightarrow> 'f world) \<Rightarrow> 'f callable \<Rightarrow> nat option \<Rightarrow> 'f world \<Rightarrow> 'f world option" where
  "add_task_impl_latch env task sem w =
     (let (wid, w1) = get_task_id w
      in send_task_impl env \<lparr>m_function = continuation (get_handle w) task wid, m_latch = sem\<rparr>
           wid w1)"

text \<open>
  The calls of one thread. \<open>execute\<close> gives the outcome and the world after a call
  that returns. \<open>user_throws\<close> says which of the user's callables end by throwing.
  \<^item> \<open>call_function f\<close> invokes a callable. The scope guard of \<open>notify_on_exit\<close>
    notifies whether the callable returns or throws. The continuation closure locks its
    weak handle first and does nothing when that fails; otherwise it invokes the
    callable and then runs \<^verbatim>\<open>while( m_continue and run_next_task( id ) ) {}\<close>.
  \<^item> \<open>call_drain wid\<close> is that loop.
  \<^item> \<open>call_run_next_task wid\<close> is \<^verbatim>\<open>task_scheduler_impl::run_next_task\<close>.
  \<^item> \<open>call_run_task tsk\<close> is \<^verbatim>\<open>task_scheduler_impl::run_task\<close>; \<open>None\<close> is the null
    task pointer. Whatever the callable throws is caught there.
\<close>

datatype 'f call =
    call_function "'f callable"
  | call_drain nat
  | call_run_next_task nat
  | call_run_task "'f task_t option"

partial_function (option) execute ::
  "('f world \<Rightarrow> 'f world) \<Rightarrow> ('f \<Rightarrow> bool) \<Rightarrow> 'f call \<Rightarrow> 'f world \<Rightarrow> (outcome \<times> 'f world) option" where
  "execute env user_throws cl w =
     (case cl of
        call_function f \<Rightarrow>
          (case f of
             user u \<Rightarrow>
               Some (if user_throws u then threw else returned,
                     w\<lparr>trace := trace w @ [invoked u]\<rparr>)
           | empty_lambda \<Rightarrow> Some (returned, w)
           | notify_on_exit task sem \<Rightarrow>
               Option.bind (execute env user_throws (call_function task) w)
                 (\<lambda>(r, w1). Some (r, notify sem w1))
           | continuation wself task wid \<Rightarrow>
               (case handle_lock wself w of
                  None \<Rightarrow> Some (returned, w)
                | Some self \<Rightarrow>
                    Option.bind (execute env user_throws (call_function task) self)
                      (\<lambda>(r, w1).
                         if r = threw then Some (threw, w1)
                         else execute env user_throws (call_drain wid) w1)))
      | call_drain wid \<Rightarrow>
          if m_continue w then
            Option.bind (execute env user_throws (call_run_next_task wid) w)
              (\<lambda>(r, w1).
                 if r = returned_true then execute env user_throws (call_drain wid) w1
                 else Some (returned, w1))
          else Some (returned, w)
      | call_run_next_task wid \<Rightarrow>
          (case receive w wid of
             (Some tsk, w1) \<Rightarrow>
               Option.bind (execute env user_throws (call_run_task (Some tsk)) w1)
                 (\<lambda>(r, w2). Some (returned_true, w2))
           | (None, w1) \<Rightarrow>
               (case steal_loop receive (m_num_threads w1) wid ((wid + 1) mod m_num_threads w1) w1 of
                  None \<Rightarrow> None
                | Some (Some tsk, w2) \<Rightarrow>
                    Option.bind (execute env user_throws (call_run_task (Some tsk)) w2)
                      (\<lambda>(r, w3). Some (returned_true, w3))
                | Some (None, w2) \<Rightarrow> Some (returned_false, w2)))
      | call_run_task t \<Rightarrow>
          (case t of
             None \<Rightarrow> Some (returned, w)
           | Some tsk \<Rightarrow>
               if \<not> is_ready tsk w then
                 map_option (Pair returned) (add_task_impl_latch env (m_function tsk) (m_latch tsk) w)
               else
                 Option.bind (execute env user_throws (call_function (m_function tsk)) w)
                   (\<lambda>(r, w1). Some (returned, w1))))"

definition run_task ::
  "('f world \<Rightarrow> 'f world) \<Rightarrow> ('f \<Rightarrow> bool) \<Rightarrow> 'f task_t option \<Rightarrow> 'f world \<Rightarrow> 'f world option" where
  "run_task env user_throws tsk w = map_option snd (execute env user_throws (call_run_task tsk) w)"

definition run_next_task ::
  "('f world \<Rightarrow> 'f world) \<Rightarrow> ('f \<Rightarrow> bool) \<Rightarrow> nat \<Rightarrow> 'f world \<Rightarrow> (bool \<times> 'f world) option" where
  "run_next_task env user_throws wid w =
     map_option (\<lambda>(r, w1). (r = returned_true, w1))
       (execute env user_throws (call_run_next_task wid) w)"

text \<open>\<^verbatim>\<open>task_scheduler_impl::started\<close> and \<^verbatim>\<open>task_scheduler::operator bool\<close>.\<close>

definition started :: "'f world \<Rightarrow> bool" where
  "started w = m_continue w"

text \<open>
  \<^verbatim>\<open>task_scheduler_impl::start\<close>. \<open>create_thread_ok n\<close> says whether creating the
  thread of worker \<open>n\<close> succeeds; when it does not, \<^verbatim>\<open>create_thread\<close> terminates the
  process.
\<close>

fun start_threads :: "(nat \<Rightarrow> bool) \<Rightarrow> nat list \<Rightarrow> 'f world \<Rightarrow> abort + 'f world" where
  "start_threads create_thread_ok [] w = Inr w"
| "start_threads create_thread_ok (n # ns) w =
     (if create_thread_ok n then
        start_threads create_thread_ok ns
          (w\<lparr>m_threads := m_threads w @ [\<lparr>get_id = next_thread_id w, joinable = True\<rparr>],
             m_thread_map := AList.update (next_thread_id w) n (m_thread_map w),
             next_thread_id := next_thread_id w + 1\<rparr>)
      else Inl terminated)"

definition start :: "(nat \<Rightarrow> bool) \<Rightarrow> 'f world \<Rightarrow> abort + 'f world" where
  "start create_thread_ok w =
     start_threads create_thread_ok [0..<m_num_threads w]
       (w\<lparr>m_continue := True, trace := trace w @ [continue_set True]\<rparr>)"

text \<open>
  \<^verbatim>\<open>task_scheduler_impl::stop\<close>. The first loop pushes the task of an empty lambda
  into every queue; the second goes through the threads. The events record the calls of
  \<^verbatim>\<open>join\<close> and \<^verbatim>\<open>detach\<close>; an exception of either is caught and the loop goes on.
\<close>

partial_function (option) stop_sentinels ::
  "('f world \<Rightarrow> 'f world) \<Rightarrow> nat \<Rightarrow> 'f world \<Rightarrow> 'f world option" where
  "stop_sentinels env n w =
     (if n < length (m_tasks w) then
        (case add_task_impl_id env empty_lambda n w of
           None \<Rightarrow> None
         | Some w1 \<Rightarrow> stop_sentinels env (n + 1) w1)
      else Some w)"

definition stop_thread :: "bool \<Rightarrow> 'f world \<Rightarrow> std_thread \<Rightarrow> 'f world" where
  "stop_thread block w th =
     (if joinable th then
        (if block then w\<lparr>trace := trace w @ [joined (get_id th)]\<rparr>
         else w\<lparr>trace := trace w @ [detached (get_id th)]\<rparr>)
      else w)"

definition stop :: "('f world \<Rightarrow> 'f world) \<Rightarrow> bool \<Rightarrow> 'f world \<Rightarrow> 'f world option" where
  "stop env block w =
     (case stop_sentinels env 0 (w\<lparr>m_continue := False, trace := trace w @ [continue_set False]\<rparr>) of
        None \<Rightarrow> None
      | Some w1 \<Rightarrow>
          (let w2 = foldl (stop_thread block) w1 (m_threads w1)
           in Some (w2\<lparr>m_threads := [], trace := trace w2 @ [threads_cleared]\<rparr>)))"

text \<open>
  Two names for the statements about \<^verbatim>\<open>stop\<close>: the task it pushes into queue \<open>n\<close>,
  and the event of the call it makes on a thread.
\<close>

definition sentinel :: "nat \<Rightarrow> 'f task_t" where
  "sentinel n = \<lparr>m_function = continuation weak_handle empty_lambda n, m_latch = None\<rparr>"

definition thread_call :: "bool \<Rightarrow> std_thread \<Rightarrow> 'f event" where
  "thread_call block th = (if block then joined (get_id th) else detached (get_id th))"

text \<open>
  \<^verbatim>\<open>task_scheduler_impl::~task_scheduler_impl\<close>: the destructor stops the scheduler;
  afterwards the shared state is gone.
\<close>

definition destroy :: "('f world \<Rightarrow> 'f world) \<Rightarrow> 'f world \<Rightarrow> 'f world option" where
  "destroy env w = map_option (\<lambda>w1. w1\<lparr>lifetime := destroyed\<rparr>) (stop env (m_block_on_destruction w) w)"

section \<open>The default scheduler\<close>

text \<open>
  The constructor \<^verbatim>\<open>task_scheduler_impl( num_threads, block_on_destruction )\<close>, and
  \<^verbatim>\<open>get_task_scheduler\<close>. The function-local static \<^verbatim>\<open>ts\<close> is constructed and started
  by the first call, which is the call that finds it \<open>not_constructed\<close>;
  \<open>hardware_concurrency\<close> is the default number of threads. The scheduler returned is
  the one of the world returned.
\<close>

definition task_scheduler_impl :: "nat \<Rightarrow> bool \<Rightarrow> 'f world \<Rightarrow> 'f world" where
  "task_scheduler_impl num_threads block_on_destruction w =
     w\<lparr>m_threads := [], m_thread_map := [], m_num_threads := num_threads,
       m_tasks := replicate num_threads [], m_task_count := 0, m_continue := False,
       m_block_on_destruction := block_on_destruction, lifetime := alive\<rparr>"

definition get_task_scheduler :: "(nat \<Rightarrow> bool) \<Rightarrow> nat \<Rightarrow> 'f world \<Rightarrow> abort + 'f world" where
  "get_task_scheduler create_thread_ok hardware_concurrency w =
     (case (if lifetime w = not_constructed
            then start create_thread_ok (task_scheduler_impl hardware_concurrency True w)
            else Inr w) of
        Inl e \<Rightarrow> Inl e
      | Inr ts \<Rightarrow> if \<not> started ts then start create_thread_ok ts else Inr ts)"

section \<open>Submission through \<^verbatim>\<open>task_scheduler\<close>\<close>

text \<open>
  \<^verbatim>\<open>make_task_ptr\<close> builds the task from a callable and, in its second form, a latch.
  The optional it returns is always engaged, so the model returns the task itself.
\<close>

definition make_task_ptr :: "'f callable \<Rightarrow> nat option \<Rightarrow> 'f task_t" where
  "make_task_ptr f sem = \<lparr>m_function = f, m_latch = sem\<rparr>"

text \<open>
  Modelled from the spec: \<^verbatim>\<open>task_scheduler::send_task\<close> is declared in the sources
  and not defined there. It pushes the task into the target queue and returns whether
  it did; when the push is abandoned the task is rejected and nothing is stored.
  \<open>accepts w wid\<close> says whether the push into queue \<open>wid\<close> goes through in \<open>w\<close>.
\<close>

definition send_task ::
  "('f world \<Rightarrow> nat \<Rightarrow> bool) \<Rightarrow> 'f task_t \<Rightarrow> nat \<Rightarrow> 'f world \<Rightarrow> bool \<times> 'f world" where
  "send_task accepts tsk wid w =
     (if accepts w wid
      then (True, w\<lparr>m_tasks := (m_tasks w)[wid := m_tasks w ! wid @ [tsk]],
                    trace := trace w @ [sent wid tsk]\<rparr>)
      else (False, w))"

text \<open>
  The two private overloads of \<^verbatim>\<open>task_scheduler::add_task\<close> that take the queue
  index, and the two public ones that take the next index round-robin.
\<close>

definition add_task_id ::
  "('f world \<Rightarrow> nat \<Rightarrow> bool) \<Rightarrow> 'f callable \<Rightarrow> nat \<Rightarrow> 'f world \<Rightarrow> bool \<times> 'f world" where
  "add_task_id accepts task wid w =
     send_task accepts (make_task_ptr (continuation (get_handle w) task wid) None) wid w"

definition add_task_latch_id ::
  "('f world \<Rightarrow> nat \<Rightarrow> bool) \<Rightarrow> 'f callable \<Rightarrow> nat \<Rightarrow> nat \<Rightarrow> 'f world \<Rightarrow> bool \<times> 'f world" where
  "add_task_latch_id accepts task sem wid w =
     send_task accepts (make_task_ptr (continuation (get_handle w) task wid) (Some sem)) wid w"

definition add_task ::
  "('f world \<Rightarrow> nat \<Rightarrow> bool) \<Rightarrow> 'f callable \<Rightarrow> 'f world \<Rightarrow> bool \<times> 'f world" where
  "add_task accepts task w =
     (let (wid, w1) = get_task_id w in add_task_id accepts task wid w1)"

definition add_task_latch ::
  "('f world \<Rightarrow> nat \<Rightarrow> bool) \<Rightarrow> 'f callable \<Rightarrow> nat \<Rightarrow> 'f world \<Rightarrow> bool \<times> 'f world" where
  "add_task_latch accepts task sem w =
     (let (wid, w1) = get_task_id w in add_task_latch_id accepts task sem wid w1)"

section \<open>The free helpers\<close>

text \<open>
  \<^verbatim>\<open>schedule_task( sem, task, ts )\<close> submits the closure that runs \<open>task\<close> and
  notifies \<open>sem\<close> on exit; it returns what \<^verbatim>\<open>add_task\<close> returns.
\<close>

definition schedule_task ::
  "('f world \<Rightarrow> nat \<Rightarrow> bool) \<Rightarrow> nat \<Rightarrow> 'f callable \<Rightarrow> 'f world \<Rightarrow> bool \<times> 'f world" where
  "schedule_task accepts sem task w = add_task accepts (notify_on_exit task sem) w"

text \<open>
  \<^verbatim>\<open>create_task_group( tasks... )\<close>. \<open>st\<close> is the lambda of that name. The fold
  expression applies it to every callable of the pack; the model takes them from left
  to right.
\<close>

definition st :: "('f world \<Rightarrow> nat \<Rightarrow> bool) \<Rightarrow> nat \<Rightarrow> 'f world \<Rightarrow> 'f \<Rightarrow> 'f world" where
  "st accepts sem w task =
     (case schedule_task accepts sem (user task) w of
        (scheduled, w1) \<Rightarrow> if \<not> scheduled then notify sem w1 else w1)"

definition create_task_group ::
  "(nat \<Rightarrow> bool) \<Rightarrow> nat \<Rightarrow> ('f world \<Rightarrow> nat \<Rightarrow> bool) \<Rightarrow> 'f list \<Rightarrow> 'f world
    \<Rightarrow> abort + (nat \<times> 'f world)" where
  "create_task_group create_thread_ok hardware_concurrency accepts tasks w =
     (case get_task_scheduler create_thread_ok hardware_concurrency w of
        Inl e \<Rightarrow> Inl e
      | Inr ts \<Rightarrow>
          (let (sem, w1) = shared_latch (length tasks) ts
           in Inr (sem, foldl (st accepts sem) w1 tasks)))"

text \<open>
  The callables a stretch of events submitted, in the order of submission: the callable
  inside the continuation closure of every task sent.
\<close>

fun submitted :: "'f event list \<Rightarrow> 'f callable list" where
  "submitted [] = []"
| "submitted (sent m tsk # evs) =
     (case m_function tsk of
        continuation wself task wid \<Rightarrow> task # submitted evs
      | _ \<Rightarrow> submitted evs)"
| "submitted (e # evs) = submitted evs"

text \<open>Invoking the callables of a list one after the other.\<close>

fun complete_all ::
  "('f world \<Rightarrow> 'f world) \<Rightarrow> ('f \<Rightarrow> bool) \<Rightarrow> 'f callable list \<Rightarrow> 'f world \<Rightarrow> 'f world option" where
  "complete_all env user_throws [] w = Some w"
| "complete_all env user_throws (f # fs) w =
     (case execute env user_throws (call_function f) w of
        None \<Rightarrow> None
      | Some (r, w1) \<Rightarrow> complete_all env user_throws fs w1)"

text \<open>
  The closures and events of a task group with latch \<open>sem\<close>: the closure of
  \<^verbatim>\<open>schedule_task\<close> around a user's callable with that latch; the event of sending,
  into queue \<open>m\<close>, a task without companion latch whose continuation closure is for
  queue \<open>m\<close> and holds such a closure, and the event of notifying the latch. The
  rejections of a stretch of events are its notifications of the latch.
\<close>

fun is_group_closure :: "nat \<Rightarrow> 'f callable \<Rightarrow> bool" where
  "is_group_closure sem (notify_on_exit (user u) l) = (l = sem)"
| "is_group_closure sem f = False"

fun is_group_event :: "nat \<Rightarrow> 'f event \<Rightarrow> bool" where
  "is_group_event sem (notified l) = (l = sem)"
| "is_group_event sem (sent m tsk) =
     (case m_function tsk of
        continuation wself task wid \<Rightarrow> is_group_closure sem task \<and> wid = m \<and> m_latch tsk = None
      | _ \<Rightarrow> False)"
| "is_group_event sem e = False"

definition rejections :: "nat \<Rightarrow> 'f event list \<Rightarrow> nat" where
  "rejections sem evs = length (filter (\<lambda>e. e = notified sem) evs)"

section \<open>Futures and the pipeline of \<^verbatim>\<open>test_001\<close>\<close>

text \<open>
  The three stages of the test, as written there. The C++ type is \<^verbatim>\<open>int\<close>; the
  values that occur for the argument \<open>3\<close> are far from its bounds, so the stages are
  stated on the integers.
\<close>

definition a :: "int \<Rightarrow> int" where
  "a x = x * 2"

definition b :: "int \<Rightarrow> int" where
  "b x = x * 3"

definition c :: "int \<Rightarrow> int" where
  "c x = x * 4"

text \<open>
  Modelled from the spec: the future-result type (\<^verbatim>\<open>future_result.h\<close>) is not among the
  sources. A future is pending, or holds a value, or holds a stored error.
\<close>

datatype ('r, 'e) future_result = Pending | Value 'r | Error 'e

text \<open>
  Modelled from the spec: \<^verbatim>\<open>resolved_future(x)\<close>, the future \<open>F0\<close> a pipeline starts
  from, is not among the sources.
\<close>

definition resolved_future :: "'r \<Rightarrow> ('r, 'e) future_result" where
  "resolved_future x = Value x"

text \<open>
  Modelled from the spec: \<^verbatim>\<open>next(g)\<close> is not among the sources. The successor holds
  \<open>g\<close> of the predecessor's value once the predecessor has resolved; an error raised by
  \<open>g\<close> (\<open>Inl\<close>) is stored in the successor; a stored error is handed on and \<open>g\<close>
  is not invoked; the successor of a pending future is pending.
\<close>

definition future_next ::
  "('r \<Rightarrow> 'e + 'q) \<Rightarrow> ('r, 'e) future_result \<Rightarrow> ('q, 'e) future_result" where
  "future_next g F =
     (case F of
        Pending \<Rightarrow> Pending
      | Error e \<Rightarrow> Error e
      | Value v \<Rightarrow> (case g v of Inl e \<Rightarrow> Error e | Inr r \<Rightarrow> Value r))"

text \<open>
  Modelled from the spec: \<^verbatim>\<open>get()\<close> is not among the sources. It waits, so on a
  future that stays pending it does not return (\<open>None\<close>); otherwise it returns the value
  or raises the stored error (\<open>Inl\<close>).
\<close>

definition get :: "('r, 'e) future_result \<Rightarrow> ('e + 'r) option" where
  "get F = (case F of Pending \<Rightarrow> None | Error e \<Rightarrow> Some (Inl e) | Value v \<Rightarrow> Some (Inr v))"

text \<open>
  Modelled from the spec: the compose builder \<^verbatim>\<open>compose_future()\<close> and its pipe
  operator (\<^verbatim>\<open>function_stream.h\<close>) are not among the sources. A pipeline is the
  sequence of its stages; \<open>pipe\<close> appends one; invoking the pipeline with \<open>x\<close> builds
  \<open>F0 = resolved_future x\<close> and then \<open>Fi = next fi\<close> of \<open>F(i-1)\<close> for
  each stage in turn, and returns the last future. A stage that is \<^verbatim>\<open>noexcept\<close>
  always returns normally (\<open>Inr\<close>).
\<close>

definition compose_future :: "('r \<Rightarrow> 'r) list" where
  "compose_future = []"

definition pipe :: "('r \<Rightarrow> 'r) list \<Rightarrow> ('r \<Rightarrow> 'r) \<Rightarrow> ('r \<Rightarrow> 'r) list" where
  "pipe fs f = fs @ [f]"

definition invoke :: "('r \<Rightarrow> 'r) list \<Rightarrow> 'r \<Rightarrow> ('r, 'e) future_result" where
  "invoke fs x = foldl (\<lambda>F f. future_next (\<lambda>v. Inr (f v)) F) (resolved_future x) fs"

text \<open>
  \<^verbatim>\<open>daw::expecting(expected_result, result)\<close> of \<^verbatim>\<open>benchmark.h\<close> aborts the process
  when the two differ, and \<^verbatim>\<open>test_001\<close> applies it to \<open>72\<close> and the value of the
  pipeline at \<open>3\<close>.
\<close>

datatype test_outcome = passed | aborted

definition expecting :: "'r \<Rightarrow> 'r \<Rightarrow> test_outcome" where
  "expecting expected_result result = (if \<not> (expected_result = result) then aborted else passed)"

definition test_001 :: "test_outcome option" where
  "test_001 =
     (case get (invoke (pipe (pipe (pipe compose_future a) b) c) 3 :: (int, unit) future_result) of
        None \<Rightarrow> None
      | Some (Inl e) \<Rightarrow> Some aborted
      | Some (Inr r) \<Rightarrow> Some (expecting 72 r))"

section \<open>Concrete states used in the examples\<close>

definition full_legacy_buffer :: "nat legacy_members_t" where
  "full_legacy_buffer =
     \<lparr>m_values = [Some 7, Some 8], m_front = 0, m_back = 0, m_is_full = True, m_size = 2\<rparr>"

definition one_task_buffer :: "nat members_t" where
  "one_task_buffer = \<lparr>m_values = [Some 7, None], m_front = 0, m_back = 1, m_is_full = False\<rparr>"


definition example_task :: "nat \<Rightarrow> nat task_t" where
  "example_task u = \<lparr>m_function = continuation weak_handle (user u) 0, m_latch = None\<rparr>"

definition example_world :: "nat world" where
  "example_world =
     \<lparr>m_threads = [\<lparr>get_id = 0, joinable = True\<rparr>, \<lparr>get_id = 1, joinable = True\<rparr>,
                  \<lparr>get_id = 2, joinable = True\<rparr>],
      m_thread_map = [(0, 0), (1, 1), (2, 2)],
      m_num_threads = 3,
      m_tasks = [[], [], [example_task 7]],
      m_task_count = 0,
      m_continue = True,
      m_block_on_destruction = True,
      lifetime = alive,
      latches = [1],
      trace = [],
      next_thread_id = 3\<rparr>"

text \<open>While the worker sleeps, another thread puts a task into queue 1.\<close>

definition arrival :: "nat world \<Rightarrow> nat world" where
  "arrival w = w\<lparr>m_tasks := [[], [example_task 8], []]\<rparr>"

definition latched_task :: "nat task_t" where
  "latched_task = \<lparr>m_function = continuation weak_handle (user 5) 0, m_latch = Some 0\<rparr>"

definition group_task :: "nat \<Rightarrow> nat \<Rightarrow> nat \<Rightarrow> nat task_t" where
  "group_task u sem wid =
     \<lparr>m_function = continuation weak_handle (notify_on_exit (user u) sem) wid, m_latch = None\<rparr>"

definition group_world :: "nat world" where
  "group_world =
     example_world
       \<lparr>m_task_count := 3,
         m_tasks := [[group_task 10 1 0], [], [example_task 7, group_task 12 1 2]],
         latches := [1, 2],
         trace := [sent 0 (group_task 10 1 0), notified 1, sent 2 (group_task 12 1 2)]\<rparr>"

chapter \<open>Properties\<close>

section \<open>Waiting on a condition variable\<close>

lemma cv_wait_Some_pred_start:
  "cv_wait env pred s = Some y \<Longrightarrow> (\<And>s. \<not> pred s \<Longrightarrow> \<not> pred (env s)) \<Longrightarrow> pred s"
proof (induct rule: cv_wait.raw_induct[rotated 1, consumes 1])
  case (1 f env pred s y)
  show ?case
  proof (cases "pred s")
    case True
    then show ?thesis .
  next
    case False
    with 1(2) have "f env pred (env s) = Some y" by simp
    from 1(1)[OF this 1(3)] have "pred (env s)" .
    with 1(3)[OF False] show ?thesis by simp
  qed
qed

lemma cv_wait_stuck:
  assumes inv: "\<And>s. \<not> pred s \<Longrightarrow> \<not> pred (env s)" and start: "\<not> pred s"
  shows "cv_wait env pred s = None"
proof (cases "cv_wait env pred s")
  case None
  then show ?thesis .
next
  case (Some y)
  from cv_wait_Some_pred_start[OF Some inv] start show ?thesis by simp
qed

section \<open>The non-blocking push\<close>

text \<open>
  Claim C5 says that \<^verbatim>\<open>try_push_back\<close> never blocks and returns \<^verbatim>\<open>failed\<close>,
  leaving the queue unchanged, when the queue is full. The legacy variant does not:
  called on a full buffer it waits on \<^verbatim>\<open>m_not_full\<close>, and as long as no other thread
  frees a slot it never returns.
\<close>

theorem legacy_try_push_back_blocks_when_full:
  assumes "full (snd s)"
    and "\<And>s'. full (snd s') \<Longrightarrow> full (snd (env s'))"
  shows "legacy_try_push_back env owns_lock ndebug v s = None"
proof -
  have "cv_wait env (\<lambda>s. \<not> full (snd s)) s = None"
    by (rule cv_wait_stuck) (use assms in auto)
  then show ?thesis using assms(1) by (simp add: legacy_try_push_back_def)
qed

theorem legacy_try_push_back_blocks_witness:
  "full (snd ((), full_legacy_buffer)) \<and>
   legacy_try_push_back id True True 9 ((), full_legacy_buffer) = None"
  using legacy_try_push_back_blocks_when_full[of "((), full_legacy_buffer)" id True True 9]
  by (simp add: full_def full_legacy_buffer_def)

text \<open>
  The fixed-capacity variant does what the claim says, and the legacy variant never
  returns \<^verbatim>\<open>failed\<close>.
\<close>

lemma try_push_back_fixed_capacity:
  "try_push_back Sz owns_lock ndebug v d =
     (if \<not> owns_lock \<or> full d then Inr (failed, d, [])
      else if \<not> ndebug \<and> m_values d ! m_back d \<noteq> None then Inl assertion_failed
      else Inr (success,
                d\<lparr>m_values := (m_values d)[m_back d := v],
                  m_back := (m_back d + 1) mod Sz,
                  m_is_full := (m_front d = (m_back d + 1) mod Sz)\<rparr>,
                [m_not_empty]))"
  by (simp add: try_push_back_def Let_def)

lemma legacy_try_push_back_never_fails:
  "legacy_try_push_back env owns_lock ndebug v s \<noteq> Some (Inr (failed, s', sigs))"
  by (auto simp: legacy_try_push_back_def Let_def split: option.splits if_splits)

section \<open>The non-blocking pop\<close>

text \<open>
  Claim C6 says that a successful \<^verbatim>\<open>try_pop_front\<close> returns the task at the head
  slot, clears the slot, advances the head modulo the capacity, clears the full flag and
  signals \<^verbatim>\<open>m_not_full\<close>. The code does all of that except the signal: with the lock
  taken, on every non-empty buffer whose head slot holds a task, the list of signals
  sent is empty.
\<close>

theorem try_pop_front_sends_no_signal:
  assumes "buffer_ok Sz d" and "\<not> empty d" and "m_values d ! m_front d = Some t"
  shows "try_pop_front Sz True ndebug d =
           Inr (Some t,
                d\<lparr>m_values := (m_values d)[m_front d := None],
                  m_front := (m_front d + 1) mod Sz,
                  m_is_full := False\<rparr>,
                [])"
  using assms by (simp add: try_pop_front_def Let_def)

theorem try_pop_front_sends_no_signal_witness:
  "buffer_ok 2 one_task_buffer \<and> \<not> empty one_task_buffer
   \<and> m_values one_task_buffer ! m_front one_task_buffer = Some 7
   \<and> try_pop_front 2 True False one_task_buffer =
       Inr (Some 7, \<lparr>m_values = [None, None], m_front = 1, m_back = 1, m_is_full = False\<rparr>, [])"
  using try_pop_front_sends_no_signal[of 2 one_task_buffer 7 False]
  by (simp add: buffer_ok_def empty_def one_task_buffer_def)

lemma legacy_try_pop_front_sends_no_signal:
  assumes "\<not> empty d" and "m_values d ! m_front d = Some t"
  shows "legacy_try_pop_front True ndebug d =
           Inr (Some t,
                d\<lparr>m_values := (m_values d)[m_front d := None],
                  m_front := (m_front d + 1) mod m_size d,
                  m_is_full := False\<rparr>,
                [])"
  using assms by (simp add: legacy_try_pop_front_def Let_def)

text \<open>
  A miss leaves the buffer as it was, and the blocking \<^verbatim>\<open>pop_front\<close> does signal
  \<^verbatim>\<open>m_not_full\<close> when it takes a task.
\<close>

lemma try_pop_front_miss:
  "\<not> owns_lock \<or> empty d \<Longrightarrow> try_pop_front Sz owns_lock ndebug d = Inr (None, d, [])"
  by (simp add: try_pop_front_def)

lemma pop_front_signals:
  "can_continue s \<Longrightarrow> \<not> empty (snd s) \<Longrightarrow>
   \<exists>r s'. pop_front Sz env can_continue s = Some (r, s', [m_not_full])"
  by (simp add: pop_front_def pop_front_tail_def Let_def)

section \<open>The wait helper and the timed pop and push\<close>







section \<open>The order in which a worker looks for a task\<close>

lemma steal_loop_try_each:
  assumes "wid < N"
  shows "j \<le> N \<Longrightarrow> 0 < j \<Longrightarrow>
    steal_loop rcv N wid ((wid + j) mod N) s
      = Some (try_each rcv (map (\<lambda>k. (wid + k) mod N) [j..<N]) s)"
proof (induct "N - j" arbitrary: j s)
  case 0
  then have "j = N" by simp
  with assms show ?case by (subst steal_loop.simps) simp
next
  case (Suc d)
  then have jN: "j < N" by simp
  have ne: "(wid + j) mod N \<noteq> wid"
  proof
    assume e: "(wid + j) mod N = wid"
    show False
    proof (cases "wid + j < N")
      case True
      with e Suc.prems show False by simp
    next
      case False
      then have "(wid + j) mod N = wid + j - N"
        using assms jN by (simp add: mod_if)
      with e jN False show False by simp
    qed
  qed
  have nxt: "Suc ((wid + j) mod N) mod N = (wid + Suc j) mod N"
    by (simp add: mod_Suc_eq)
  have ih: "steal_loop rcv N wid (Suc (wid + j) mod N) s'
      = Some (try_each rcv (map (\<lambda>k. (wid + k) mod N) [Suc j..<N]) s')" for s'
    using Suc.hyps(1)[of "Suc j" s'] Suc.hyps(2) jN by simp
  have up: "[j..<N] = j # [Suc j..<N]" using jN by (simp add: upt_conv_Cons)
  show ?case
    by (subst steal_loop.simps) (simp add: ne nxt ih up split: prod.splits option.splits)
qed

lemma poll_own_first_hit:
  "(\<forall>j<k. fst (rcv (poll_state rcv sleep wid j s) wid) = None) \<Longrightarrow>
   rcv (poll_state rcv sleep wid k s) wid = (Some tsk, s1) \<Longrightarrow>
   poll_own rcv sleep wid s = Some (tsk, s1)"
proof (induct k arbitrary: s)
  case 0
  then show ?case by (subst poll_own.simps) simp
next
  case (Suc k)
  from Suc(2) have miss: "fst (rcv s wid) = None" by (auto dest: spec[of _ 0])
  have "\<forall>j<k. fst (rcv (poll_state rcv sleep wid j (sleep (snd (rcv s wid)))) wid) = None"
    using Suc(2) by (auto dest: spec[of _ "Suc j" for j])
  from Suc(1)[OF this] Suc(3)
  have "poll_own rcv sleep wid (sleep (snd (rcv s wid))) = Some (tsk, s1)" by simp
  with miss show ?case by (subst poll_own.simps) (cases "rcv s wid", simp)
qed

lemma poll_own_never:
  assumes "\<And>k. fst (rcv (poll_state rcv sleep wid k s) wid) = None"
  shows "poll_own rcv sleep wid s = None"
proof -
  have "poll_own rcv sleep wid s' = Some y \<Longrightarrow>
        \<exists>k. fst (rcv (poll_state rcv sleep wid k s') wid) \<noteq> None" for s' y
  proof (induct rule: poll_own.raw_induct[rotated 1, consumes 1])
    case (1 f rcv sleep wid s y)
    show ?case
    proof (cases "fst (rcv s wid)")
      case (Some t)
      then have "fst (rcv (poll_state rcv sleep wid 0 s) wid) \<noteq> None" by simp
      then show ?thesis by blast
    next
      case None
      with 1(2) have "f rcv sleep wid (sleep (snd (rcv s wid))) = Some y"
        by (cases "rcv s wid") simp
      from 1(1)[OF this] obtain k where
        "fst (rcv (poll_state rcv sleep wid k (sleep (snd (rcv s wid)))) wid) \<noteq> None" ..
      then have "fst (rcv (poll_state rcv sleep wid (Suc k) s) wid) \<noteq> None" by simp
      then show ?thesis by blast
    qed
  qed
  note hit = this
  show ?thesis
  proof (cases "poll_own rcv sleep wid s")
    case None
    then show ?thesis .
  next
    case (Some y)
    from hit[OF Some] obtain k where "fst (rcv (poll_state rcv sleep wid k s) wid) \<noteq> None" ..
    with assms[of k] show ?thesis by simp
  qed
qed

text \<open>
  Claim C3: a worker with index \<open>wid\<close> in a pool of \<open>N\<close> queues first tries its own
  queue, then the queues \<open>(wid + 1) mod N\<close>, ..., \<open>(wid + N - 1) mod N\<close> in that
  order, and returns the first task it gets; only when all \<open>N\<close> attempts miss does it
  fall back to polling its own queue, and that returns with the task of the first poll
  that hits (\<open>k\<close> polls miss before it). This holds for whatever \<open>rcv\<close> does.
\<close>

theorem wait_for_task_from_pool_order:
  assumes "wid < N"
  shows "wait_for_task_from_pool rcv sleep N wid s =
           (case try_each rcv (wid # map (\<lambda>k. (wid + k) mod N) [1..<N]) s of
              (Some tsk, s1) \<Rightarrow> Some (tsk, s1)
            | (None, s1) \<Rightarrow> poll_own rcv sleep wid s1)
         \<and> ((\<forall>j<k. fst (rcv (poll_state rcv sleep wid j s2) wid) = None)
              \<and> rcv (poll_state rcv sleep wid k s2) wid = (Some tsk2, s3)
            \<longrightarrow> poll_own rcv sleep wid s2 = Some (tsk2, s3))"
proof (intro conjI impI)
  have "steal_loop rcv N wid ((wid + 1) mod N) s1
      = Some (try_each rcv (map (\<lambda>k. (wid + k) mod N) [1..<N]) s1)" for s1
    using steal_loop_try_each[OF assms, of 1 rcv s1] assms by simp
  then show "wait_for_task_from_pool rcv sleep N wid s =
           (case try_each rcv (wid # map (\<lambda>k. (wid + k) mod N) [1..<N]) s of
              (Some tsk, s1) \<Rightarrow> Some (tsk, s1)
            | (None, s1) \<Rightarrow> poll_own rcv sleep wid s1)"
    by (simp add: wait_for_task_from_pool_def split: prod.splits option.splits)
next
  assume "(\<forall>j<k. fst (rcv (poll_state rcv sleep wid j s2) wid) = None)
              \<and> rcv (poll_state rcv sleep wid k s2) wid = (Some tsk2, s3)"
  then show "poll_own rcv sleep wid s2 = Some (tsk2, s3)"
    using poll_own_first_hit[of k rcv sleep wid s2 tsk2 s3] by blast
qed

theorem wait_for_task_from_pool_order_witness:
  "(1::nat) < 3
   \<and> wait_for_task_from_pool receive arrival 3 1 example_world
       = Some (example_task 7, example_world\<lparr>m_tasks := [[], [], []]\<rparr>)
   \<and> poll_own receive arrival 1 (example_world\<lparr>m_tasks := [[], [], []]\<rparr>)
       = Some (example_task 8, example_world\<lparr>m_tasks := [[], [], []]\<rparr>)"
  using wait_for_task_from_pool_order[where wid = 1 and N = 3 and rcv = receive
      and sleep = arrival and s = example_world and k = 1
      and ?s2.0 = "example_world\<lparr>m_tasks := [[], [], []]\<rparr>"
      and ?tsk2.0 = "example_task 8" and ?s3.0 = "example_world\<lparr>m_tasks := [[], [], []]\<rparr>"]
  by (simp add: receive_def arrival_def example_world_def upt_rec)

section \<open>Running a task\<close>

lemma execute_user:
  "execute env thr (call_function (user u)) w
     = Some (if thr u then threw else returned, w\<lparr>trace := trace w @ [invoked u]\<rparr>)"
  by (subst execute.simps) simp

lemma execute_empty_lambda:
  "execute env thr (call_function empty_lambda) w = Some (returned, w)"
  by (subst execute.simps) simp

lemma execute_notify_on_exit:
  "execute env thr (call_function (notify_on_exit task sem)) w
     = Option.bind (execute env thr (call_function task) w) (\<lambda>(r, w1). Some (r, notify sem w1))"
  by (subst execute.simps) simp

lemma execute_continuation:
  "execute env thr (call_function (continuation wself task wid)) w
     = (case handle_lock wself w of
          None \<Rightarrow> Some (returned, w)
        | Some self \<Rightarrow>
            Option.bind (execute env thr (call_function task) self)
              (\<lambda>(r, w1). if r = threw then Some (threw, w1)
                           else execute env thr (call_drain wid) w1))"
  by (subst execute.simps) simp

lemma execute_drain:
  "execute env thr (call_drain wid) w
     = (if m_continue w then
          Option.bind (execute env thr (call_run_next_task wid) w)
            (\<lambda>(r, w1). if r = returned_true then execute env thr (call_drain wid) w1
                         else Some (returned, w1))
        else Some (returned, w))"
  by (subst execute.simps) simp

lemma execute_run_task:
  "execute env thr (call_run_task t) w
     = (case t of
          None \<Rightarrow> Some (returned, w)
        | Some tsk \<Rightarrow>
            if \<not> is_ready tsk w then
              map_option (Pair returned) (add_task_impl_latch env (m_function tsk) (m_latch tsk) w)
            else
              Option.bind (execute env thr (call_function (m_function tsk)) w)
                (\<lambda>(r, w1). Some (returned, w1)))"
  by (subst execute.simps) simp

lemma send_task_impl_room:
  "length (m_tasks w ! wid) < queue_capacity \<Longrightarrow>
   send_task_impl env tsk wid w
     = Some (w\<lparr>m_tasks := (m_tasks w)[wid := m_tasks w ! wid @ [tsk]],
               trace := trace w @ [sent wid tsk]\<rparr>)"
  by (subst send_task_impl.simps) (simp add: send_def)

text \<open>
  Claim C2: \<^verbatim>\<open>run_task\<close> does nothing on a null task. A task is ready when it has no
  companion latch or the count of its latch is zero. On a ready task \<^verbatim>\<open>run_task\<close>
  invokes the callable of the task (and swallows what it throws); on a task that is not
  ready it invokes nothing and submits the callable again, with the latch of the task,
  to the scheduler: when the target queue has room, the world afterwards is the world
  before with the round-robin counter advanced and the task appended to that queue.
\<close>

theorem run_task_runs_ready_tasks_only:
  "run_task env thr None w = Some w
   \<and> is_ready tsk w = (case m_latch tsk of None \<Rightarrow> True | Some sem \<Rightarrow> latches w ! sem = 0)
   \<and> (is_ready tsk w \<longrightarrow>
        run_task env thr (Some tsk) w
          = map_option snd (execute env thr (call_function (m_function tsk)) w))
   \<and> (\<not> is_ready tsk w \<longrightarrow>
        run_task env thr (Some tsk) w
          = add_task_impl_latch env (m_function tsk) (m_latch tsk) w)
   \<and> (\<not> is_ready tsk w \<and> scheduler_ok w
        \<and> length (m_tasks w ! (m_task_count w mod m_num_threads w)) < queue_capacity \<longrightarrow>
        run_task env thr (Some tsk) w
          = Some (w\<lparr>m_task_count := (m_task_count w + 1) mod 2 ^ 64,
                    m_tasks := (m_tasks w)[m_task_count w mod m_num_threads w :=
                      m_tasks w ! (m_task_count w mod m_num_threads w) @
                        [\<lparr>m_function = continuation (get_handle w) (m_function tsk)
                                          (m_task_count w mod m_num_threads w),
                          m_latch = m_latch tsk\<rparr>]],
                    trace := trace w @
                      [sent (m_task_count w mod m_num_threads w)
                         \<lparr>m_function = continuation (get_handle w) (m_function tsk)
                                         (m_task_count w mod m_num_threads w),
                          m_latch = m_latch tsk\<rparr>]\<rparr>))"
proof (intro conjI impI)
  show "run_task env thr None w = Some w"
    by (simp add: run_task_def execute_run_task)
  show "is_ready tsk w = (case m_latch tsk of None \<Rightarrow> True | Some sem \<Rightarrow> latches w ! sem = 0)"
    by (simp add: is_ready_def try_wait_def split: option.splits)
next
  assume "is_ready tsk w"
  then show "run_task env thr (Some tsk) w
          = map_option snd (execute env thr (call_function (m_function tsk)) w)"
    by (cases "execute env thr (call_function (m_function tsk)) w")
       (auto simp: run_task_def execute_run_task)
next
  assume "\<not> is_ready tsk w"
  then show "run_task env thr (Some tsk) w
          = add_task_impl_latch env (m_function tsk) (m_latch tsk) w"
    by (cases "add_task_impl_latch env (m_function tsk) (m_latch tsk) w")
       (auto simp: run_task_def execute_run_task)
next
  let ?wid = "m_task_count w mod m_num_threads w"
  assume a: "\<not> is_ready tsk w \<and> scheduler_ok w \<and> length (m_tasks w ! ?wid) < queue_capacity"
  then have "run_task env thr (Some tsk) w
          = add_task_impl_latch env (m_function tsk) (m_latch tsk) w"
    by (cases "add_task_impl_latch env (m_function tsk) (m_latch tsk) w")
       (auto simp: run_task_def execute_run_task)
  also have "\<dots> = send_task_impl env
        \<lparr>m_function = continuation (get_handle w) (m_function tsk) ?wid, m_latch = m_latch tsk\<rparr>
        ?wid (w\<lparr>m_task_count := (m_task_count w + 1) mod 2 ^ 64\<rparr>)"
    by (simp add: add_task_impl_latch_def get_task_id_def Let_def)
  also have "\<dots> = Some (w\<lparr>m_task_count := (m_task_count w + 1) mod 2 ^ 64,
                    m_tasks := (m_tasks w)[?wid := m_tasks w ! ?wid @
                        [\<lparr>m_function = continuation (get_handle w) (m_function tsk) ?wid,
                          m_latch = m_latch tsk\<rparr>]],
                    trace := trace w @
                      [sent ?wid
                         \<lparr>m_function = continuation (get_handle w) (m_function tsk) ?wid,
                          m_latch = m_latch tsk\<rparr>]\<rparr>)"
    using a by (subst send_task_impl_room) simp_all
  finally show "run_task env thr (Some tsk) w = Some (w\<lparr>m_task_count := (m_task_count w + 1) mod 2 ^ 64,
                    m_tasks := (m_tasks w)[?wid := m_tasks w ! ?wid @
                        [\<lparr>m_function = continuation (get_handle w) (m_function tsk) ?wid,
                          m_latch = m_latch tsk\<rparr>]],
                    trace := trace w @
                      [sent ?wid
                         \<lparr>m_function = continuation (get_handle w) (m_function tsk) ?wid,
                          m_latch = m_latch tsk\<rparr>]\<rparr>)" .
qed

theorem run_task_runs_ready_tasks_only_witness:
  "run_task id (\<lambda>u. False) None example_world = Some example_world
   \<and> is_ready latched_task (example_world\<lparr>m_continue := False, latches := [0]\<rparr>)
   \<and> run_task id (\<lambda>u. False) (Some latched_task) (example_world\<lparr>m_continue := False, latches := [0]\<rparr>)
       = Some (example_world\<lparr>m_continue := False, latches := [0], trace := [invoked 5]\<rparr>)
   \<and> \<not> is_ready latched_task example_world
   \<and> scheduler_ok example_world
   \<and> run_task id (\<lambda>u. False) (Some latched_task) example_world
       = Some (example_world
           \<lparr>m_task_count := 1,
             m_tasks := [[\<lparr>m_function = continuation weak_handle (m_function latched_task) 0,
                          m_latch = Some 0\<rparr>], [], [example_task 7]],
             trace := [sent 0 \<lparr>m_function = continuation weak_handle (m_function latched_task) 0,
                               m_latch = Some 0\<rparr>]\<rparr>)"
  using run_task_runs_ready_tasks_only[where env = id and thr = "\<lambda>u. False"
      and w = "example_world\<lparr>m_continue := False, latches := [0]\<rparr>" and tsk = latched_task]
    run_task_runs_ready_tasks_only[where env = id and thr = "\<lambda>u. False"
      and w = example_world and tsk = latched_task]
  by (simp add: is_ready_def try_wait_def latched_task_def example_world_def scheduler_ok_def
      execute_continuation execute_user execute_drain handle_lock_def get_handle_def
      queue_capacity_def add_task_impl_latch_def get_task_id_def send_task_impl.simps send_def)

text \<open>
  \<^verbatim>\<open>run_next_task\<close> goes through the queues in the same order as
  \<^verbatim>\<open>wait_for_task_from_pool\<close> and returns \<^verbatim>\<open>false\<close> when all of them miss.
\<close>

lemma receive_num_threads: "m_num_threads (snd (receive s m)) = m_num_threads s"
  by (simp add: receive_def split: list.splits)

lemma run_next_task_order:
  assumes "wid < m_num_threads w"
  shows "execute env thr (call_run_next_task wid) w =
           (case try_each receive (wid # map (\<lambda>k. (wid + k) mod m_num_threads w) [1..<m_num_threads w]) w of
              (Some tsk, w1) \<Rightarrow>
                Option.bind (execute env thr (call_run_task (Some tsk)) w1)
                  (\<lambda>(r, w2). Some (returned_true, w2))
            | (None, w1) \<Rightarrow> Some (returned_false, w1))"
proof -
  have n: "m_num_threads w1 = m_num_threads w" if "receive w wid = (x, w1)" for x w1
    using receive_num_threads[of w wid] that by simp
  have sl: "steal_loop receive (m_num_threads w) wid (Suc wid mod m_num_threads w) s1
      = Some (try_each receive (map (\<lambda>k. (wid + k) mod m_num_threads w) [Suc 0..<m_num_threads w]) s1)" for s1
    using steal_loop_try_each[OF assms, of 1 receive s1] assms by simp
  show ?thesis
  proof (cases "receive w wid")
    case (Pair x w1)
    note nn = n[OF Pair]
    show ?thesis
      by (subst execute.simps) (simp add: Pair nn sl split: option.splits prod.splits)
  qed
qed

section \<open>Stopping the scheduler\<close>

lemma add_task_impl_id_room:
  "length (m_tasks w ! n) < queue_capacity \<Longrightarrow>
   add_task_impl_id env empty_lambda n w
     = Some (w\<lparr>m_tasks := (m_tasks w)[n := m_tasks w ! n @ [sentinel n]],
               trace := trace w @ [sent n (sentinel n)]\<rparr>)"
  by (simp add: add_task_impl_id_def send_task_impl_room sentinel_def get_handle_def)

lemma stop_sentinels_room:
  "n \<le> length (m_tasks w) \<Longrightarrow>
   (\<And>k. n \<le> k \<Longrightarrow> k < length (m_tasks w) \<Longrightarrow> length (m_tasks w ! k) < queue_capacity) \<Longrightarrow>
   stop_sentinels env n w
     = Some (w\<lparr>m_tasks := take n (m_tasks w)
                   @ map (\<lambda>k. m_tasks w ! k @ [sentinel k]) [n..<length (m_tasks w)],
               trace := trace w @ map (\<lambda>k. sent k (sentinel k)) [n..<length (m_tasks w)]\<rparr>)"
proof (induct "length (m_tasks w) - n" arbitrary: n w)
  case 0
  then have "n = length (m_tasks w)" by simp
  then show ?case by (subst stop_sentinels.simps) simp
next
  case (Suc d)
  then have nlt: "n < length (m_tasks w)" by simp
  let ?w1 = "w\<lparr>m_tasks := (m_tasks w)[n := m_tasks w ! n @ [sentinel n]],
               trace := trace w @ [sent n (sentinel n)]\<rparr>"
  have step: "add_task_impl_id env empty_lambda n w = Some ?w1"
    using Suc.prems(2)[of n] nlt by (simp add: add_task_impl_id_room)
  have len: "length (m_tasks ?w1) = length (m_tasks w)" by simp
  have ih: "stop_sentinels env (Suc n) ?w1
     = Some (?w1\<lparr>m_tasks := take (Suc n) (m_tasks ?w1)
                   @ map (\<lambda>k. m_tasks ?w1 ! k @ [sentinel k]) [Suc n..<length (m_tasks ?w1)],
               trace := trace ?w1 @ map (\<lambda>k. sent k (sentinel k)) [Suc n..<length (m_tasks ?w1)]\<rparr>)"
  proof (rule Suc.hyps(1))
    show "d = length (m_tasks ?w1) - Suc n" using Suc.hyps(2) by simp
    show "Suc n \<le> length (m_tasks ?w1)" using nlt by simp
    fix k assume "Suc n \<le> k" "k < length (m_tasks ?w1)"
    then show "length (m_tasks ?w1 ! k) < queue_capacity"
      using Suc.prems(2)[of k] by simp
  qed
  have tk: "take (Suc n) ((m_tasks w)[n := m_tasks w ! n @ [sentinel n]])
      = take n (m_tasks w) @ [m_tasks w ! n @ [sentinel n]]"
    using nlt by (simp add: take_Suc_conv_app_nth)
  have mp: "map (\<lambda>k. (m_tasks w)[n := m_tasks w ! n @ [sentinel n]] ! k @ [sentinel k])
              [Suc n..<length (m_tasks w)]
          = map (\<lambda>k. m_tasks w ! k @ [sentinel k]) [Suc n..<length (m_tasks w)]"
    by simp
  have up: "[n..<length (m_tasks w)] = n # [Suc n..<length (m_tasks w)]"
    using nlt by (simp add: upt_conv_Cons)
  show ?case
    using nlt by (subst stop_sentinels.simps) (simp add: step ih tk mp up)
qed

lemma foldl_stop_thread:
  "foldl (stop_thread block) w ths
     = w\<lparr>trace := trace w @ map (thread_call block) (filter joinable ths)\<rparr>"
  by (induct ths arbitrary: w) (simp_all add: stop_thread_def thread_call_def)

text \<open>
  What is taken of the other threads while \<^verbatim>\<open>stop\<close> waits for room in a queue: the
  events are those of the thread modelled, so they do not add any; the number of queues
  is fixed at construction; and \<^verbatim>\<open>stop\<close> holds the lock of the list of threads.
\<close>

lemma send_task_impl_Some:
  "send_task_impl env tsk wid w = Some w1 \<Longrightarrow>
   (\<forall>w. trace (env w) = trace w \<and> length (m_tasks (env w)) = length (m_tasks w)
        \<and> m_threads (env w) = m_threads w) \<Longrightarrow>
   trace w1 = trace w @ [sent wid tsk] \<and> length (m_tasks w1) = length (m_tasks w)
   \<and> m_threads w1 = m_threads w"
proof (induct rule: send_task_impl.raw_induct[rotated 1, consumes 1])
  case (1 f env tsk wid w w1)
  show ?case
  proof (cases "length (m_tasks w ! wid) < queue_capacity")
    case True
    with 1(2) show ?thesis by (auto simp: send_def)
  next
    case False
    with 1(2) have "f env tsk wid (env w) = Some w1" by (simp add: send_def)
    from 1(1)[OF this 1(3)] 1(3) show ?thesis by simp
  qed
qed

lemma stop_sentinels_Some:
  "stop_sentinels env n w = Some w1 \<Longrightarrow>
   (\<forall>w. trace (env w) = trace w \<and> length (m_tasks (env w)) = length (m_tasks w)
        \<and> m_threads (env w) = m_threads w) \<Longrightarrow>
   trace w1 = trace w @ map (\<lambda>k. sent k (sentinel k)) [n..<length (m_tasks w)]
   \<and> length (m_tasks w1) = length (m_tasks w) \<and> m_threads w1 = m_threads w"
proof (induct rule: stop_sentinels.raw_induct[rotated 1, consumes 1])
  case (1 f env n w w1)
  show ?case
  proof (cases "n < length (m_tasks w)")
    case False
    with 1(2) show ?thesis by simp
  next
    case True
    with 1(2) obtain w2 where
      a: "add_task_impl_id env empty_lambda n w = Some w2" and r: "f env (n + 1) w2 = Some w1"
      by (auto split: option.splits)
    from a have "send_task_impl env (sentinel n) n w = Some w2"
      by (simp add: add_task_impl_id_def sentinel_def get_handle_def)
    from send_task_impl_Some[OF this 1(3)] have s:
      "trace w2 = trace w @ [sent n (sentinel n)]" "length (m_tasks w2) = length (m_tasks w)"
      "m_threads w2 = m_threads w" by simp_all
    from 1(1)[OF r 1(3)] s True show ?thesis by (simp add: upt_conv_Cons)
  qed
qed

lemma stop_Some:
  assumes "stop env block w = Some w1"
    and "\<forall>w. trace (env w) = trace w \<and> length (m_tasks (env w)) = length (m_tasks w)
         \<and> m_threads (env w) = m_threads w"
  shows "trace w1 = trace w @ [continue_set False]
           @ map (\<lambda>n. sent n (sentinel n)) [0..<length (m_tasks w)]
           @ map (thread_call block) (filter joinable (m_threads w))
           @ [threads_cleared]
         \<and> m_threads w1 = []"
proof -
  let ?w0 = "w\<lparr>m_continue := False, trace := trace w @ [continue_set False]\<rparr>"
  from assms(1) obtain w2 where
    a: "stop_sentinels env 0 ?w0 = Some w2"
    and b: "w1 = (foldl (stop_thread block) w2 (m_threads w2))
                   \<lparr>m_threads := [], trace := trace (foldl (stop_thread block) w2 (m_threads w2))
                        @ [threads_cleared]\<rparr>"
    by (auto simp: stop_def Let_def split: option.splits)
  from stop_sentinels_Some[OF a assms(2)] b show ?thesis
    by (simp add: foldl_stop_thread)
qed

text \<open>
  The threads \<^verbatim>\<open>start\<close> makes are joinable, and they stay in the list until
  \<^verbatim>\<open>stop\<close> clears it: the threads \<^verbatim>\<open>stop\<close> finds joinable are all the threads of
  the list.
\<close>

lemma start_threads_joinable:
  "start_threads ok ns w = Inr ts \<Longrightarrow> list_all joinable (m_threads w)
     \<Longrightarrow> list_all joinable (m_threads ts)"
  by (induct ns arbitrary: w) (auto split: if_splits)

lemma start_joinable:
  "start ok w = Inr ts \<Longrightarrow> list_all joinable (m_threads w) \<Longrightarrow> list_all joinable (m_threads ts)"
  by (auto simp: start_def dest: start_threads_joinable)

lemma get_task_scheduler_joinable:
  "get_task_scheduler ok hc w = Inr ts \<Longrightarrow> list_all joinable (m_threads w)
     \<Longrightarrow> list_all joinable (m_threads ts)"
  by (auto simp: get_task_scheduler_def task_scheduler_impl_def
      split: if_splits sum.splits dest!: start_joinable)

text \<open>
  Claim C7: \<^verbatim>\<open>stop( block )\<close> first writes \<open>False\<close> to the running flag, then
  pushes one task of an empty lambda into each of the \<open>N\<close> queues, queue \<open>0\<close> first,
  then calls \<^verbatim>\<open>join\<close> (when \<open>block\<close>) or \<^verbatim>\<open>detach\<close> (otherwise) on every thread
  of the list that is joinable, as every thread made by \<^verbatim>\<open>start\<close> is, and clears the
  list of threads before it returns. Whenever \<^verbatim>\<open>stop\<close> returns, these are its events,
  in this order, whatever the other threads do to the queues meanwhile. It does return,
  with the world written out below, when every queue has room, so that no push has to
  wait for another thread. The destructor is \<^verbatim>\<open>stop( m_block_on_destruction )\<close>.
\<close>

theorem stop_order:
  "((\<forall>w. trace (env w) = trace w \<and> length (m_tasks (env w)) = length (m_tasks w)
        \<and> m_threads (env w) = m_threads w)
      \<and> stop env block w = Some w1 \<longrightarrow>
      trace w1 = trace w @ [continue_set False]
        @ map (\<lambda>n. sent n (sentinel n)) [0..<length (m_tasks w)]
        @ map (thread_call block) (filter joinable (m_threads w))
        @ [threads_cleared]
      \<and> m_threads w1 = [])
   \<and> (list_all (\<lambda>q. length q < queue_capacity) (m_tasks w) \<longrightarrow>
        stop env block w =
           Some (w\<lparr>m_continue := False,
                   m_tasks := map (\<lambda>n. m_tasks w ! n @ [sentinel n]) [0..<length (m_tasks w)],
                   m_threads := [],
                   trace := trace w @ [continue_set False]
                     @ map (\<lambda>n. sent n (sentinel n)) [0..<length (m_tasks w)]
                     @ map (thread_call block) (filter joinable (m_threads w))
                     @ [threads_cleared]\<rparr>))
   \<and> destroy env w
       = map_option (\<lambda>w1. w1\<lparr>lifetime := destroyed\<rparr>) (stop env (m_block_on_destruction w) w)"
proof (intro conjI impI)
  assume "(\<forall>w. trace (env w) = trace w \<and> length (m_tasks (env w)) = length (m_tasks w)
        \<and> m_threads (env w) = m_threads w)
      \<and> stop env block w = Some w1"
  then show "trace w1 = trace w @ [continue_set False]
        @ map (\<lambda>n. sent n (sentinel n)) [0..<length (m_tasks w)]
        @ map (thread_call block) (filter joinable (m_threads w))
        @ [threads_cleared]"
    and "m_threads w1 = []"
    using stop_Some[of env block w w1] by simp_all
next
  assume room: "list_all (\<lambda>q. length q < queue_capacity) (m_tasks w)"
  let ?w0 = "w\<lparr>m_continue := False, trace := trace w @ [continue_set False]\<rparr>"
  have "stop_sentinels env 0 ?w0
     = Some (?w0\<lparr>m_tasks := take 0 (m_tasks ?w0)
                   @ map (\<lambda>k. m_tasks ?w0 ! k @ [sentinel k]) [0..<length (m_tasks ?w0)],
               trace := trace ?w0 @ map (\<lambda>k. sent k (sentinel k)) [0..<length (m_tasks ?w0)]\<rparr>)"
    by (rule stop_sentinels_room) (use room in \<open>auto simp: list_all_length\<close>)
  then show "stop env block w =
           Some (w\<lparr>m_continue := False,
                   m_tasks := map (\<lambda>n. m_tasks w ! n @ [sentinel n]) [0..<length (m_tasks w)],
                   m_threads := [],
                   trace := trace w @ [continue_set False]
                     @ map (\<lambda>n. sent n (sentinel n)) [0..<length (m_tasks w)]
                     @ map (thread_call block) (filter joinable (m_threads w))
                     @ [threads_cleared]\<rparr>)"
    by (simp add: stop_def foldl_stop_thread)
next
  show "destroy env w
       = map_option (\<lambda>w1. w1\<lparr>lifetime := destroyed\<rparr>) (stop env (m_block_on_destruction w) w)"
    by (simp add: destroy_def)
qed

theorem stop_order_witness:
  "list_all (\<lambda>q. length q < queue_capacity) (m_tasks example_world)
   \<and> stop id True example_world =
       Some (example_world\<lparr>m_continue := False,
               m_tasks := [[sentinel 0], [sentinel 1], [example_task 7, sentinel 2]],
               m_threads := [],
               trace := [continue_set False, sent 0 (sentinel 0), sent 1 (sentinel 1),
                         sent 2 (sentinel 2), joined 0, joined 1, joined 2, threads_cleared]\<rparr>)
   \<and> destroy id example_world
       = map_option (\<lambda>w1. w1\<lparr>lifetime := destroyed\<rparr>) (stop id True example_world)"
  using stop_order[where env = id and block = True and w = example_world
      and ?w1.0 = "example_world\<lparr>m_continue := False,
               m_tasks := [[sentinel 0], [sentinel 1], [example_task 7, sentinel 2]],
               m_threads := [],
               trace := [continue_set False, sent 0 (sentinel 0), sent 1 (sentinel 1),
                         sent 2 (sentinel 2), joined 0, joined 1, joined 2, threads_cleared]\<rparr>"]
  by (simp add: example_world_def queue_capacity_def thread_call_def upt_rec numeral_2_eq_2)

section \<open>Submitting a task again\<close>

text \<open>
  When \<^verbatim>\<open>run_task\<close> returns from a task that is not ready, its only event is the push
  of the task, wrapped again, into the next queue round-robin: no callable has been
  invoked, however long the push had to wait for room.
\<close>

lemma run_task_not_ready_events:
  assumes "\<not> is_ready tsk w"
    and "run_task env thr (Some tsk) w = Some w1"
    and "\<forall>w. trace (env w) = trace w \<and> length (m_tasks (env w)) = length (m_tasks w)
         \<and> m_threads (env w) = m_threads w"
  shows "trace w1 = trace w @
           [sent (m_task_count w mod m_num_threads w)
              \<lparr>m_function = continuation (get_handle w) (m_function tsk)
                              (m_task_count w mod m_num_threads w),
               m_latch = m_latch tsk\<rparr>]"
proof -
  from assms(1,2) have "add_task_impl_latch env (m_function tsk) (m_latch tsk) w = Some w1"
    by (cases "add_task_impl_latch env (m_function tsk) (m_latch tsk) w")
       (auto simp: run_task_def execute_run_task)
  then have "send_task_impl env
        \<lparr>m_function = continuation (get_handle w) (m_function tsk)
                        (m_task_count w mod m_num_threads w),
         m_latch = m_latch tsk\<rparr>
        (m_task_count w mod m_num_threads w)
        (w\<lparr>m_task_count := (m_task_count w + 1) mod 2 ^ 64\<rparr>) = Some w1"
    by (simp add: add_task_impl_latch_def get_task_id_def Let_def)
  from send_task_impl_Some[OF this assms(3)] show ?thesis by simp
qed

section \<open>The default scheduler\<close>

lemma start_threads_Inr:
  "start_threads ok ns w = Inr ts \<Longrightarrow> m_continue ts = m_continue w \<and> lifetime ts = lifetime w"
  by (induct ns arbitrary: w) (auto split: if_splits)

lemma start_threads_returns:
  "(\<forall>n \<in> set ns. ok n) \<Longrightarrow> \<exists>ts. start_threads ok ns w = Inr ts"
  by (induct ns arbitrary: w) auto

lemma start_Inr:
  "start ok w = Inr ts \<Longrightarrow> started ts \<and> lifetime ts = lifetime w"
  by (auto simp: start_def started_def dest: start_threads_Inr)

lemma start_returns:
  "(\<forall>n < m_num_threads w. ok n) \<Longrightarrow> \<exists>ts. start ok w = Inr ts"
  by (simp add: start_def start_threads_returns)

text \<open>
  Claim C10: the scheduler \<^verbatim>\<open>get_task_scheduler\<close> returns is started. The first call
  constructs and starts it; a later call that finds it not started starts it again, and
  one that finds it started returns it as it is. The call returns whenever every thread
  can be created; when one cannot, \<^verbatim>\<open>create_thread\<close> terminates the process.
\<close>

theorem get_task_scheduler_is_started:
  "(get_task_scheduler ok hc w = Inr ts \<longrightarrow> started ts)
   \<and> ((\<forall>n. ok n) \<longrightarrow> (\<exists>ts. get_task_scheduler ok hc w = Inr ts))
   \<and> (lifetime w = not_constructed \<longrightarrow>
        get_task_scheduler ok hc w = start ok (task_scheduler_impl hc True w))
   \<and> (lifetime w \<noteq> not_constructed \<and> \<not> started w \<longrightarrow> get_task_scheduler ok hc w = start ok w)
   \<and> (lifetime w \<noteq> not_constructed \<and> started w \<longrightarrow> get_task_scheduler ok hc w = Inr w)"
proof (intro conjI impI)
  assume "get_task_scheduler ok hc w = Inr ts"
  then show "started ts"
    by (auto simp: get_task_scheduler_def split: if_splits sum.splits dest: start_Inr)
next
  assume all: "\<forall>n. ok n"
  show "\<exists>ts. get_task_scheduler ok hc w = Inr ts"
  proof (cases "lifetime w = not_constructed")
    case True
    from all obtain ts where s: "start ok (task_scheduler_impl hc True w) = Inr ts"
      using start_returns[of "task_scheduler_impl hc True w" ok] by auto
    with start_Inr[OF s] True show ?thesis by (simp add: get_task_scheduler_def)
  next
    case False
    from all obtain ts where "start ok w = Inr ts" using start_returns[of w ok] by auto
    with False show ?thesis by (simp add: get_task_scheduler_def)
  qed
next
  assume nc: "lifetime w = not_constructed"
  show "get_task_scheduler ok hc w = start ok (task_scheduler_impl hc True w)"
  proof (cases "start ok (task_scheduler_impl hc True w)")
    case (Inl e)
    with nc show ?thesis by (simp add: get_task_scheduler_def)
  next
    case (Inr ts)
    with nc start_Inr[OF Inr] show ?thesis by (simp add: get_task_scheduler_def)
  qed
next
  assume "lifetime w \<noteq> not_constructed \<and> \<not> started w"
  then show "get_task_scheduler ok hc w = start ok w" by (simp add: get_task_scheduler_def)
next
  assume "lifetime w \<noteq> not_constructed \<and> started w"
  then show "get_task_scheduler ok hc w = Inr w" by (simp add: get_task_scheduler_def)
qed

theorem get_task_scheduler_is_started_witness:
  "get_task_scheduler (\<lambda>n. True) 2 (example_world\<lparr>lifetime := not_constructed\<rparr>)
     = Inr (example_world\<lparr>m_threads := [\<lparr>get_id = 3, joinable = True\<rparr>, \<lparr>get_id = 4, joinable = True\<rparr>],
              m_thread_map := [(3, 0), (4, 1)], m_num_threads := 2, m_tasks := [[], []],
              trace := [continue_set True], next_thread_id := 5\<rparr>)
   \<and> started (example_world\<lparr>m_threads := [\<lparr>get_id = 3, joinable = True\<rparr>, \<lparr>get_id = 4, joinable = True\<rparr>],
              m_thread_map := [(3, 0), (4, 1)], m_num_threads := 2, m_tasks := [[], []],
              trace := [continue_set True], next_thread_id := 5\<rparr>)
   \<and> (\<exists>ts. get_task_scheduler (\<lambda>n. True) 2 (example_world\<lparr>lifetime := not_constructed\<rparr>) = Inr ts)
   \<and> \<not> started (example_world\<lparr>m_continue := False, m_threads := []\<rparr>)
   \<and> get_task_scheduler (\<lambda>n. True) 2 (example_world\<lparr>m_continue := False, m_threads := []\<rparr>)
       = start (\<lambda>n. True) (example_world\<lparr>m_continue := False, m_threads := []\<rparr>)
   \<and> get_task_scheduler (\<lambda>n. True) 2 example_world = Inr example_world"
  using get_task_scheduler_is_started[where ok = "\<lambda>n. True" and hc = 2
      and w = "example_world\<lparr>lifetime := not_constructed\<rparr>"
      and ts = "example_world\<lparr>m_threads := [\<lparr>get_id = 3, joinable = True\<rparr>, \<lparr>get_id = 4, joinable = True\<rparr>],
              m_thread_map := [(3, 0), (4, 1)], m_num_threads := 2, m_tasks := [[], []],
              trace := [continue_set True], next_thread_id := 5\<rparr>"]
    get_task_scheduler_is_started[where ok = "\<lambda>n. True" and hc = 2
      and w = "example_world\<lparr>m_continue := False, m_threads := []\<rparr>"]
    get_task_scheduler_is_started[where ok = "\<lambda>n. True" and hc = 2 and w = example_world]
  by (simp add: example_world_def started_def start_def task_scheduler_impl_def upt_rec
      numeral_2_eq_2)

section \<open>The pipeline example\<close>

lemma invoke_pipe:
  "invoke (pipe fs f) x = future_next (\<lambda>v. Inr (f v)) (invoke fs x)"
  by (simp add: invoke_def pipe_def)

text \<open>
  Claim C8: for the stages \<open>a x = 2x\<close>, \<open>b x = 3x\<close>, \<open>c x = 4x\<close>, the pipeline
  \<open>a | b | c\<close> invoked with \<open>3\<close> yields a future whose value is \<open>72\<close>, which is
  \<open>c (b (a 3))\<close>; so \<^verbatim>\<open>test_001\<close> passes.
\<close>

theorem pipeline_a_b_c_of_3:
  "get (invoke (pipe (pipe (pipe compose_future a) b) c) 3) = Some (Inr 72)
   \<and> c (b (a 3)) = 72
   \<and> test_001 = Some passed"
  by (simp add: test_001_def expecting_def invoke_def pipe_def compose_future_def
      resolved_future_def future_next_def get_def a_def b_def c_def)

section \<open>The closure of \<^verbatim>\<open>add_task\<close>\<close>

text \<open>
  Claim C9: \<^verbatim>\<open>add_task\<close>, with or without a latch, pushes a task whose callable is
  the continuation closure: it holds the weak handle \<^verbatim>\<open>get_handle( )\<close>, the callable
  and the queue index, and no reference to the shared state. When the closure runs it
  locks the handle first. If the shared state is no longer alive the lock fails, and the
  closure returns with the world as it was: the user's callable is not invoked and the
  drain loop is not entered. If it is alive, the callable is invoked and, unless it
  throws, the drain loop follows.
\<close>

theorem add_task_wraps_with_weak_handle:
  "add_task_id accepts task wid w =
     (if accepts w wid
      then (True, w\<lparr>m_tasks := (m_tasks w)[wid := m_tasks w ! wid @
                        [\<lparr>m_function = continuation (get_handle w) task wid, m_latch = None\<rparr>]],
                    trace := trace w @
                        [sent wid \<lparr>m_function = continuation (get_handle w) task wid,
                                   m_latch = None\<rparr>]\<rparr>)
      else (False, w))
   \<and> add_task_latch_id accepts task sem wid w =
     (if accepts w wid
      then (True, w\<lparr>m_tasks := (m_tasks w)[wid := m_tasks w ! wid @
                        [\<lparr>m_function = continuation (get_handle w) task wid, m_latch = Some sem\<rparr>]],
                    trace := trace w @
                        [sent wid \<lparr>m_function = continuation (get_handle w) task wid,
                                   m_latch = Some sem\<rparr>]\<rparr>)
      else (False, w))
   \<and> add_task accepts task w =
       add_task_id accepts task (m_task_count w mod m_num_threads w)
         (w\<lparr>m_task_count := (m_task_count w + 1) mod 2 ^ 64\<rparr>)
   \<and> (lifetime w \<noteq> alive \<longrightarrow>
        handle_lock wself w = None
        \<and> execute env thr (call_function (continuation wself task wid)) w = Some (returned, w))
   \<and> (lifetime w = alive \<longrightarrow>
        execute env thr (call_function (continuation wself task wid)) w =
          Option.bind (execute env thr (call_function task) w)
            (\<lambda>(r, w1). if r = threw then Some (threw, w1)
                         else execute env thr (call_drain wid) w1))"
  by (simp add: add_task_id_def add_task_latch_id_def add_task_def get_task_id_def
      send_task_def make_task_ptr_def execute_continuation handle_lock_def Let_def)

theorem add_task_wraps_with_weak_handle_witness:
  "lifetime (example_world\<lparr>lifetime := destroyed\<rparr>) \<noteq> alive
   \<and> execute id (\<lambda>u. False) (call_function (continuation weak_handle (user 5) 0))
        (example_world\<lparr>lifetime := destroyed\<rparr>)
       = Some (returned, example_world\<lparr>lifetime := destroyed\<rparr>)
   \<and> lifetime (example_world\<lparr>m_continue := False\<rparr>) = alive
   \<and> execute id (\<lambda>u. False) (call_function (continuation weak_handle (user 5) 0))
        (example_world\<lparr>m_continue := False\<rparr>)
       = Some (returned, example_world\<lparr>m_continue := False, trace := [invoked 5]\<rparr>)"
  using add_task_wraps_with_weak_handle[where w = "example_world\<lparr>lifetime := destroyed\<rparr>"
      and wself = weak_handle and env = id and thr = "\<lambda>u. False" and task = "user 5" and wid = 0]
    add_task_wraps_with_weak_handle[where w = "example_world\<lparr>m_continue := False\<rparr>"
      and wself = weak_handle and env = id and thr = "\<lambda>u. False" and task = "user 5" and wid = 0]
  by (simp add: example_world_def execute_user execute_drain)

section \<open>Task groups\<close>

lemma execute_group_closure:
  "execute env thr (call_function (notify_on_exit (user u) sem)) w
     = Some (if thr u then threw else returned, notify sem (w\<lparr>trace := trace w @ [invoked u]\<rparr>))"
  by (simp add: execute_notify_on_exit execute_user)

lemma complete_all_group:
  "list_all (is_group_closure sem) fs \<Longrightarrow> sem < length (latches w) \<Longrightarrow>
   \<exists>w2. complete_all env thr fs w = Some w2
        \<and> length (latches w2) = length (latches w)
        \<and> latches w2 ! sem = latches w ! sem - length fs"
proof (induct fs arbitrary: w)
  case Nil
  then show ?case by simp
next
  case (Cons f fs)
  from Cons.prems(1) obtain u where f: "f = notify_on_exit (user u) sem"
    by (cases "(sem, f)" rule: is_group_closure.cases) auto
  let ?w1 = "notify sem (w\<lparr>trace := trace w @ [invoked u]\<rparr>)"
  have l1: "length (latches ?w1) = length (latches w)" by (simp add: notify_def)
  have c1: "latches ?w1 ! sem = latches w ! sem - 1"
    using Cons.prems(2) by (simp add: notify_def)
  from Cons.prems have "list_all (is_group_closure sem) fs" "sem < length (latches ?w1)"
    by (simp_all add: l1)
  from Cons.hyps[OF this] obtain w2 where
    "complete_all env thr fs ?w1 = Some w2"
    "length (latches w2) = length (latches ?w1)"
    "latches w2 ! sem = latches ?w1 ! sem - length fs" by blast
  then show ?case by (simp add: f execute_group_closure l1 c1)
qed

lemma st_cases:
  "(\<exists>e. is_group_event sem e \<and> trace (st accepts sem w u) = trace w @ [e]
        \<and> submitted [e] = [notify_on_exit (user u) sem] \<and> latches (st accepts sem w u) = latches w)
   \<or> (trace (st accepts sem w u) = trace w @ [notified sem]
        \<and> latches (st accepts sem w u) = (latches w)[sem := latches w ! sem - 1])"
  by (simp add: st_def schedule_task_def add_task_def add_task_id_def get_task_id_def
      send_task_def make_task_ptr_def notify_def get_handle_def Let_def)

lemma submitted_Cons:
  "submitted (e # evs) = submitted [e] @ submitted evs"
  by (cases e) (auto split: callable.splits)

lemma foldl_st:
  "sem < length (latches w) \<Longrightarrow>
   \<exists>evs. trace (foldl (st accepts sem) w us) = trace w @ evs
        \<and> length evs = length us
        \<and> list_all (is_group_event sem) evs
        \<and> length (submitted evs) + rejections sem evs = length us
        \<and> length (latches (foldl (st accepts sem) w us)) = length (latches w)
        \<and> latches (foldl (st accepts sem) w us) ! sem = latches w ! sem - rejections sem evs"
proof (induct us arbitrary: w)
  case Nil
  then show ?case by (simp add: rejections_def)
next
  case (Cons u us)
  let ?w1 = "st accepts sem w u"
  from st_cases[of sem accepts w u]
  obtain e where e: "is_group_event sem e" "trace ?w1 = trace w @ [e]"
    "length (submitted [e]) + rejections sem [e] = 1"
    "length (latches ?w1) = length (latches w)"
    "latches ?w1 ! sem = latches w ! sem - rejections sem [e]"
  proof
    assume "\<exists>e. is_group_event sem e \<and> trace ?w1 = trace w @ [e]
        \<and> submitted [e] = [notify_on_exit (user u) sem] \<and> latches ?w1 = latches w"
    then obtain e where h: "is_group_event sem e" "trace ?w1 = trace w @ [e]"
        "submitted [e] = [notify_on_exit (user u) sem]" "latches ?w1 = latches w" by blast
    from h(1,3) have ne: "e \<noteq> notified sem" by auto
    show ?thesis
      by (rule that[of e]) (use h ne in \<open>simp_all add: rejections_def\<close>)
  next
    assume h: "trace ?w1 = trace w @ [notified sem]
        \<and> latches ?w1 = (latches w)[sem := latches w ! sem - 1]"
    show ?thesis
      by (rule that[of "notified sem"]) (use h Cons.prems in \<open>simp_all add: rejections_def\<close>)
  qed
  from Cons.prems e(4) have "sem < length (latches ?w1)" by simp
  from Cons.hyps[OF this] obtain evs where evs:
    "trace (foldl (st accepts sem) ?w1 us) = trace ?w1 @ evs"
    "length evs = length us"
    "list_all (is_group_event sem) evs"
    "length (submitted evs) + rejections sem evs = length us"
    "length (latches (foldl (st accepts sem) ?w1 us)) = length (latches ?w1)"
    "latches (foldl (st accepts sem) ?w1 us) ! sem = latches ?w1 ! sem - rejections sem evs"
    by blast
  have r: "rejections sem (e # evs) = rejections sem [e] + rejections sem evs"
    by (simp add: rejections_def)
  show ?case
  proof (intro exI[of _ "e # evs"] conjI)
    show "trace (foldl (st accepts sem) w (u # us)) = trace w @ e # evs"
      using evs(1) e(2) by simp
    show "length (e # evs) = length (u # us)" using evs(2) by simp
    show "list_all (is_group_event sem) (e # evs)" using evs(3) e(1) by simp
    show "length (submitted (e # evs)) + rejections sem (e # evs) = length (u # us)"
      using e(3) evs(4) by (subst submitted_Cons) (simp add: r)
    show "length (latches (foldl (st accepts sem) w (u # us))) = length (latches w)"
      using evs(5) e(4) by simp
    show "latches (foldl (st accepts sem) w (u # us)) ! sem = latches w ! sem - rejections sem (e # evs)"
      using evs(6) e(5) by (simp add: r)
  qed
qed

lemma submitted_group:
  "list_all (is_group_event sem) evs \<Longrightarrow> list_all (is_group_closure sem) (submitted evs)"
proof (induct evs)
  case Nil
  then show ?case by simp
next
  case (Cons e evs)
  then show ?case by (cases e) (auto split: callable.splits)
qed

text \<open>
  Claim C1: \<^verbatim>\<open>create_task_group\<close> constructs one latch, the one it returns, with
  the number of callables as its count. Every callable gives exactly one event: either
  its task is sent, and then the callable in the continuation closure is the closure of
  \<^verbatim>\<open>schedule_task\<close> around it with that same latch, or it is rejected, and then the
  latch is notified at once. So on return the count of the latch is the number of
  callables that were scheduled; each of their closures notifies the latch once when it
  is left, whether the callable returns or throws (the last part of the statement), and
  once all of them have been invoked the latch is at zero. \<open>ts\<close> is the default
  scheduler \<^verbatim>\<open>get_task_scheduler\<close> returns. (With no callable at all the source does
  not compile, a fold over \<^verbatim>\<open>+\<close> needs an operand; the statement then speaks of a
  latch constructed at zero.)
\<close>

theorem create_task_group_latch:
  assumes "get_task_scheduler ok hc w = Inr ts" and "scheduler_ok ts"
  shows "(\<exists>w' evs.
           create_task_group ok hc accepts tasks w = Inr (length (latches ts), w')
           \<and> length (latches w') = Suc (length (latches ts))
           \<and> trace w' = trace ts @ evs
           \<and> length evs = length tasks
           \<and> list_all (is_group_event (length (latches ts))) evs
           \<and> length (submitted evs) + rejections (length (latches ts)) evs = length tasks
           \<and> latches w' ! length (latches ts) = length (submitted evs)
           \<and> list_all (is_group_closure (length (latches ts))) (submitted evs)
           \<and> (\<exists>w2. complete_all env thr (submitted evs) w' = Some w2
                    \<and> try_wait (length (latches ts)) w2))
         \<and> execute env thr (call_function (notify_on_exit (user u) sem)) w0
             = Some (if thr u then threw else returned,
                     notify sem (w0\<lparr>trace := trace w0 @ [invoked u]\<rparr>))"
proof -
  let ?sem = "length (latches ts)"
  let ?w1 = "ts\<lparr>latches := latches ts @ [length tasks]\<rparr>"
  let ?w' = "foldl (st accepts ?sem) ?w1 tasks"
  have c: "create_task_group ok hc accepts tasks w = Inr (?sem, ?w')"
    using assms(1) by (simp add: create_task_group_def shared_latch_def)
  have lt: "?sem < length (latches ?w1)" by simp
  from foldl_st[OF lt, of accepts tasks] obtain evs where evs:
    "trace ?w' = trace ?w1 @ evs"
    "length evs = length tasks"
    "list_all (is_group_event ?sem) evs"
    "length (submitted evs) + rejections ?sem evs = length tasks"
    "length (latches ?w') = length (latches ?w1)"
    "latches ?w' ! ?sem = latches ?w1 ! ?sem - rejections ?sem evs"
    by blast
  have cnt: "latches ?w' ! ?sem = length (submitted evs)"
    using evs(4,6) by simp
  have grp: "list_all (is_group_closure ?sem) (submitted evs)"
    using evs(3) by (rule submitted_group)
  have "?sem < length (latches ?w')" using evs(5) by simp
  from complete_all_group[OF grp this, of env thr] cnt
  obtain w2 where w2: "complete_all env thr (submitted evs) ?w' = Some w2" "latches w2 ! ?sem = 0"
    by auto
  have fin: "\<exists>w2. complete_all env thr (submitted evs) ?w' = Some w2 \<and> try_wait ?sem w2"
    using w2 by (auto simp: try_wait_def)
  have len: "length (latches ?w') = Suc ?sem" using evs(5) by simp
  have tr: "trace ?w' = trace ts @ evs" using evs(1) by simp
  have "\<exists>w' evs.
      create_task_group ok hc accepts tasks w = Inr (length (latches ts), w')
      \<and> length (latches w') = Suc (length (latches ts))
      \<and> trace w' = trace ts @ evs
      \<and> length evs = length tasks
      \<and> list_all (is_group_event (length (latches ts))) evs
      \<and> length (submitted evs) + rejections (length (latches ts)) evs = length tasks
      \<and> latches w' ! length (latches ts) = length (submitted evs)
      \<and> list_all (is_group_closure (length (latches ts))) (submitted evs)
      \<and> (\<exists>w2. complete_all env thr (submitted evs) w' = Some w2
               \<and> try_wait (length (latches ts)) w2)"
    by (rule exI[of _ ?w'], rule exI[of _ evs]) (use c len tr evs(2,3,4) cnt grp fin in blast)
  then show ?thesis
    by (rule conjI) (rule execute_group_closure)
qed

lemma group_example_scheduler:
  "get_task_scheduler (\<lambda>n. True) 2 example_world = Inr example_world"
  by (simp add: get_task_scheduler_def started_def example_world_def)

lemma group_example_ok: "scheduler_ok example_world"
  by (simp add: scheduler_ok_def example_world_def)

lemma group_example_created:
  "create_task_group (\<lambda>n. True) 2 (\<lambda>w wid. wid \<noteq> 1) [10, 11, 12] example_world
     = Inr (1, group_world)"
  unfolding create_task_group_def group_example_scheduler
  by (simp add: shared_latch_def st_def schedule_task_def add_task_def add_task_id_def
      get_task_id_def send_task_def make_task_ptr_def notify_def get_handle_def
      group_task_def group_world_def example_world_def)

lemma group_example_completed:
  "complete_all id (\<lambda>u. False) (submitted (trace group_world)) group_world
     = Some (group_world
               \<lparr>latches := [1, 0],
                 trace := trace group_world @ [invoked 10, notified 1, invoked 12, notified 1]\<rparr>)"
  by (simp add: group_world_def group_task_def example_world_def execute_group_closure notify_def)

theorem create_task_group_latch_witness:
  "get_task_scheduler (\<lambda>n. True) 2 example_world = Inr example_world
   \<and> scheduler_ok example_world
   \<and> create_task_group (\<lambda>n. True) 2 (\<lambda>w wid. wid \<noteq> 1) [10, 11, 12] example_world
       = Inr (1, group_world)
   \<and> complete_all id (\<lambda>u. False) (submitted (trace group_world)) group_world
       = Some (group_world
               \<lparr>latches := [1, 0],
                 trace := trace group_world @ [invoked 10, notified 1, invoked 12, notified 1]\<rparr>)"
  using create_task_group_latch[OF group_example_scheduler group_example_ok, where accepts = "\<lambda>w wid. wid \<noteq> 1"
      and tasks = "[10, 11, 12]" and env = id and thr = "\<lambda>u. False" and u = 10 and sem = 1
      and ?w0.0 = group_world]
    group_example_scheduler group_example_ok group_example_created group_example_completed
  by (elim exE conjE) (intro conjI; assumption)

end
